theory Spec2Isabelle
  imports Complex_Main "HOL-Library.Multiset"
begin

section \<open>Clipped double Q-learning: the TD-target of coax\<close>

text \<open>
  A shallow embedding of \<^verbatim>\<open>coax/td_learning/_clippeddoubleqlearning.py\<close>.
  Array entries are modelled as real numbers: the rounding of the floating-point
  arrays of the numerical library is not part of the model. Infinities and NaN are
  modelled where a property depends on them: lines 262 to 269 have a second model on
  such values.
\<close>

subsection \<open>Arrays\<close>

text \<open>
  A rank-1 array is a list of reals, a rank-2 array is the list of its rows. The rank
  assertions of the source (\<^verbatim>\<open>ndim == 1\<close>, \<^verbatim>\<open>ndim == 2\<close>) are carried by these types.
  A list of rows does not record the number of columns of an array without rows.
\<close>

type_synonym vec = "real list"
type_synonym mat = "real list list"

datatype error =
    TypeError string
  | ValueError string
  | AttributeError
  | ArrayError

text \<open>
  \<^verbatim>\<open>TypeError\<close> and \<^verbatim>\<open>ValueError\<close> carry the constant part of the message the source
  raises them with. \<^verbatim>\<open>AttributeError\<close> is what calling a method on an object without it
  raises. \<^verbatim>\<open>ArrayError\<close> stands for the exception of the array library on a reduction
  over an axis of size zero, on stacking no array or arrays of different shapes, and on
  operands that do not broadcast.
\<close>

text \<open>\<^verbatim>\<open>x.max(axis=1)\<close> and \<^verbatim>\<open>jnp.min(x, axis=-1)\<close> on one non-empty row.\<close>

fun row_max :: "real list \<Rightarrow> real" where
  "row_max (x # xs) = fold max xs x"

fun row_min :: "real list \<Rightarrow> real" where
  "row_min (x # xs) = fold min xs x"

text \<open>
  Lines 235 and 236: the indicator of the row-wise maximum, divided by its row sum.
  \<^verbatim>\<open>
  A_next = (Q_s_next == Q_s_next.max(axis=1, keepdims=True)).astype(Q_s_next.dtype)
  A_next /= A_next.sum(axis=1, keepdims=True)  # there may be ties
  \<close>
  The maximum over an axis of size zero raises.
\<close>

definition greedy_A_next :: "mat \<Rightarrow> error + mat" where
  "greedy_A_next Q_s_next =
     (if [] \<in> set Q_s_next then Inl ArrayError
      else
        let A_next = map (\<lambda>row. map (\<lambda>x. if x = row_max row then 1 else 0) row) Q_s_next
        in Inr (map (\<lambda>row. map (\<lambda>x. x / sum_list row) row) A_next))"

text \<open>
  \<^verbatim>\<open>jnp.stack(arrays, axis=-1)\<close> of rank-1 arrays: the arrays become the columns of a
  rank-2 array. It raises on an empty list and on arrays of different lengths.
\<close>

definition stack_last :: "'v list list \<Rightarrow> error + 'v list list" where
  "stack_last arrays =
     (case arrays of
        [] \<Rightarrow> Inl ArrayError
      | c # cs \<Rightarrow>
          if \<forall>c' \<in> set cs. length c' = length c
          then Inr (map (\<lambda>r. map (\<lambda>v. v ! r) arrays) [0..<length c])
          else Inl ArrayError)"

text \<open>\<^verbatim>\<open>jnp.min(x, axis=-1)\<close> of a rank-2 array with at least one column.\<close>

definition min_last :: "mat \<Rightarrow> vec" where
  "min_last M = map row_min M"

text \<open>
  An elementwise binary operation on two rank-1 arrays, with the broadcasting of the
  array library: equal lengths, or one operand of length 1.
\<close>

definition broadcast2 ::
  "('v \<Rightarrow> 'v \<Rightarrow> 'v) \<Rightarrow> 'v list \<Rightarrow> 'v list \<Rightarrow> error + 'v list" where
  "broadcast2 f xs ys =
     (if length xs = length ys then Inr (map2 f xs ys)
      else if length xs = 1 then Inr (map (f (hd xs)) ys)
      else if length ys = 1 then Inr (map (\<lambda>x. f x (hd ys)) xs)
      else Inl ArrayError)"

subsection \<open>Collaborators\<close>

text \<open>
  The classes \<^verbatim>\<open>Q\<close> and \<^verbatim>\<open>Policy\<close>, the transition batch and the random-key sequence
  are imported by the source and are parameters of the model. Type variables:
  \<open>'p\<close> parameters, \<open>'st\<close> function state, \<open>'k\<close> random key, \<open>'s\<close> a batch of states,
  \<open>'a\<close> a batch of actions as stored in a transition, \<open>'c\<close> a batch of actions of a
  non-discrete space, \<open>'d\<close> the distribution parameters of a policy.
\<close>

text \<open>
  The action argument of \<^verbatim>\<open>function_type1\<close>: for a discrete space a rank-2 array with
  one row of weights per transition (\<^verbatim>\<open>A_next\<close> of line 236), otherwise what the mode of
  a policy returns.
\<close>

datatype 'c actions = Weights mat | Cont 'c

record ('p, 'st, 'k, 's, 'a, 'c) Q =
  action_space_Discrete :: bool
  action_preprocessor :: "'a \<Rightarrow> 'c actions"
  function_type1 :: "'p \<Rightarrow> 'st \<Rightarrow> 'k \<Rightarrow> 's \<Rightarrow> 'c actions \<Rightarrow> bool \<Rightarrow> vec \<times> 'st"
  function_type2 :: "'p \<Rightarrow> 'st \<Rightarrow> 'k \<Rightarrow> 's \<Rightarrow> bool \<Rightarrow> mat \<times> 'st"

text \<open>
  \<open>action_space_Discrete\<close> is \<^verbatim>\<open>isinstance(q.action_space, Discrete)\<close>;
  \<open>policy_function\<close> is \<^verbatim>\<open>pi.function\<close> and \<open>proba_dist_mode\<close> is \<^verbatim>\<open>pi.proba_dist.mode\<close>.
\<close>

record ('p, 'st, 'k, 's, 'c, 'd) Policy =
  policy_function :: "'p \<Rightarrow> 'st \<Rightarrow> 'k \<Rightarrow> 's \<Rightarrow> bool \<Rightarrow> 'd \<times> 'st"
  proba_dist_mode :: "'d \<Rightarrow> 'c"

text \<open>The fields of a transition batch the source reads: positions 0, 1, 3, 4 and 5.\<close>

record ('s, 'a) TransitionBatch =
  batch_S :: 's
  batch_A :: 'a
  batch_Rn :: vec
  batch_In :: vec
  batch_S_next :: 's

text \<open>
  The dictionaries \<^verbatim>\<open>target_params\<close> and \<^verbatim>\<open>target_state\<close>, with the keys
  \<^verbatim>\<open>'q'\<close>, \<^verbatim>\<open>'q_targ'\<close> and \<^verbatim>\<open>'pi_targ'\<close>.
\<close>

record 'x target_bundle =
  bundle_q :: 'x
  bundle_q_targ :: "'x list"
  bundle_pi_targ :: "'x list"

text \<open>
  \<^verbatim>\<open>next(rngs)\<close> on \<^verbatim>\<open>hk.PRNGSequence(rng)\<close>: the key of the sequence is split into the
  new key of the sequence and the sub-key that is handed out. The splitting function
  returns this pair and is a parameter.
\<close>

type_synonym 'k split = "'k \<Rightarrow> 'k \<times> 'k"

subsection \<open>Arguments of the constructor\<close>

text \<open>
  The constructor inspects its list arguments at run time, so they are modelled as
  dynamically typed values: an element is a \<^verbatim>\<open>Q\<close>, a \<^verbatim>\<open>Policy\<close> or something else, an
  argument is \<^verbatim>\<open>None\<close>, a list, a tuple or something else.
\<close>

datatype ('q, 'pi) pyobj = IsQ 'q | IsPolicy 'pi | OtherObj

datatype 'e pyarg = PyNone | PyList "'e list" | PyTuple "'e list" | PyOther

fun is_None :: "'e pyarg \<Rightarrow> bool" where
  "is_None PyNone = True"
| "is_None (PyList xs) = False"
| "is_None (PyTuple xs) = False"
| "is_None PyOther = False"

fun is_tuple_or_list :: "'e pyarg \<Rightarrow> bool" where
  "is_tuple_or_list (PyList xs) = True"
| "is_tuple_or_list (PyTuple xs) = True"
| "is_tuple_or_list PyNone = False"
| "is_tuple_or_list PyOther = False"

text \<open>The elements of a list or tuple; anything else is taken not to be iterable.\<close>

fun py_iter :: "'e pyarg \<Rightarrow> error + 'e list" where
  "py_iter (PyList xs) = Inr xs"
| "py_iter (PyTuple xs) = Inr xs"
| "py_iter PyNone = Inl (TypeError ''object is not iterable'')"
| "py_iter PyOther = Inl (TypeError ''object is not iterable'')"

fun py_len :: "'e pyarg \<Rightarrow> error + nat" where
  "py_len (PyList xs) = Inr (length xs)"
| "py_len (PyTuple xs) = Inr (length xs)"
| "py_len PyNone = Inl (TypeError ''object has no len()'')"
| "py_len PyOther = Inl (TypeError ''object has no len()'')"

fun isinstance_Policy :: "('q, 'pi) pyobj \<Rightarrow> bool" where
  "isinstance_Policy (IsPolicy pol) = True"
| "isinstance_Policy (IsQ q) = False"
| "isinstance_Policy OtherObj = False"

fun isinstance_Q :: "('q, 'pi) pyobj \<Rightarrow> bool" where
  "isinstance_Q (IsQ q) = True"
| "isinstance_Q (IsPolicy pol) = False"
| "isinstance_Q OtherObj = False"

subsection \<open>The object\<close>

type_synonym ('p, 'st, 'k, 's, 'a, 'c, 'd) target_obj =
  "(('p, 'st, 'k, 's, 'a, 'c) Q, ('p, 'st, 'k, 's, 'c, 'd) Policy) pyobj"

text \<open>
  The attributes of a constructed object that the modelled methods read. After line
  128 \<^verbatim>\<open>q_targ_list\<close> is a list or tuple of \<^verbatim>\<open>Q\<close>, so the attribute is a list of
  Q-functions; \<^verbatim>\<open>pi_targ_list\<close> is not validated for a discrete action space and stays
  dynamically typed.
\<close>

record ('p, 'st, 'k, 's, 'a, 'c, 'd) ClippedDoubleQLearning =
  self_q :: "('p, 'st, 'k, 's, 'a, 'c) Q"
  self_q_targ_list :: "('p, 'st, 'k, 's, 'a, 'c) Q list"
  self_pi_targ_list :: "('p, 'st, 'k, 's, 'a, 'c, 'd) target_obj pyarg"
  self_loss_function :: "vec \<Rightarrow> vec \<Rightarrow> real"
  self_value_transform :: "(vec \<Rightarrow> vec) \<times> (vec \<Rightarrow> vec)"

subsection \<open>\<^verbatim>\<open>_check_input_lists\<close> and \<^verbatim>\<open>__init__\<close>\<close>

text \<open>Lines 284 to 287 and 294 to 296: the first element of the wrong class raises.\<close>

fun check_all_Policy :: "('q, 'pi) pyobj list \<Rightarrow> error + unit" where
  "check_all_Policy [] = Inr ()"
| "check_all_Policy (pol # pis) =
     (if \<not> isinstance_Policy pol
      then Inl (TypeError ''all pi_targ in pi_targ_list must be a coax.Policy'')
      else check_all_Policy pis)"

fun check_all_Q :: "('q, 'pi) pyobj list \<Rightarrow> error + unit" where
  "check_all_Q [] = Inr ()"
| "check_all_Q (q_targ # qs) =
     (if \<not> isinstance_Q q_targ
      then Inl (TypeError ''all q_targ in q_targ_list must be a coax.Q'')
      else check_all_Q qs)"

text \<open>Lines 273 to 287; the result is the list of warnings issued.\<close>

definition check_pi_targ_list ::
  "bool \<Rightarrow> ('q, 'pi) pyobj pyarg \<Rightarrow> error + string list" where
  "check_pi_targ_list discrete pi_targ_list =
     (if discrete then
        (if \<not> is_None pi_targ_list
         then Inr [''pi_targ_list is ignored, because action space is discrete'']
         else Inr [])
      else if is_None pi_targ_list then
        Inl (TypeError ''pi_targ_list must be provided if action space is not discrete'')
      else if \<not> is_tuple_or_list pi_targ_list then
        Inl (TypeError ''pi_targ_list must be a list or a tuple'')
      else
        (case py_iter pi_targ_list of
           Inl e \<Rightarrow> Inl e
         | Inr pis \<Rightarrow>
             if length pis < 1 then Inl (ValueError ''pi_targ_list cannot be empty'')
             else (case check_all_Policy pis of Inl e \<Rightarrow> Inl e | Inr u \<Rightarrow> Inr [])))"

text \<open>Lines 290 to 296.\<close>

definition check_q_targ_list :: "('q, 'pi) pyobj pyarg \<Rightarrow> error + unit" where
  "check_q_targ_list q_targ_list =
     (if \<not> is_tuple_or_list q_targ_list then
        Inl (TypeError ''q_targ_list must be a list or a tuple'')
      else
        (case py_iter q_targ_list of
           Inl e \<Rightarrow> Inl e
         | Inr qs \<Rightarrow>
             if length qs = 0 then Inl (ValueError ''q_targ_list cannot be empty'')
             else check_all_Q qs))"

definition check_input_lists ::
  "bool \<Rightarrow> ('q, 'pi) pyobj pyarg \<Rightarrow> ('q, 'pi) pyobj pyarg \<Rightarrow> error + string list" where
  "check_input_lists discrete pi_targ_list q_targ_list =
     (case check_pi_targ_list discrete pi_targ_list of
        Inl e \<Rightarrow> Inl e
      | Inr warnings \<Rightarrow>
          (case check_q_targ_list q_targ_list of
             Inl e \<Rightarrow> Inl e
           | Inr u \<Rightarrow> Inr warnings))"

text \<open>The Q-functions among the elements: all of them, once line 128 has passed.\<close>

fun the_Qs :: "('q, 'pi) pyobj list \<Rightarrow> 'q list" where
  "the_Qs [] = []"
| "the_Qs (IsQ q # xs) = q # the_Qs xs"
| "the_Qs (IsPolicy pol # xs) = the_Qs xs"
| "the_Qs (OtherObj # xs) = the_Qs xs"

text \<open>
  Lines 117 to 138 of the constructor. The constructor of the base class (line 121) is
  not part of the source file: the loss function and the value transform are taken as
  it has stored them. The result is the object and the warnings issued.
\<close>

definition init ::
  "('p, 'st, 'k, 's, 'a, 'c) Q \<Rightarrow>
   ('p, 'st, 'k, 's, 'a, 'c, 'd) target_obj pyarg \<Rightarrow>
   ('p, 'st, 'k, 's, 'a, 'c, 'd) target_obj pyarg \<Rightarrow>
   (vec \<Rightarrow> vec \<Rightarrow> real) \<Rightarrow> (vec \<Rightarrow> vec) \<times> (vec \<Rightarrow> vec) \<Rightarrow>
   error + (('p, 'st, 'k, 's, 'a, 'c, 'd) ClippedDoubleQLearning \<times> string list)" where
  "init q pi_targ_list q_targ_list loss_function value_transform =
     (case check_input_lists (action_space_Discrete q) pi_targ_list q_targ_list of
        Inl e \<Rightarrow> Inl e
      | Inr warnings \<Rightarrow>
          let pi_targ_list' = (if is_None pi_targ_list then PyList [] else pi_targ_list) in
          (case py_iter q_targ_list of
             Inl e \<Rightarrow> Inl e
           | Inr qs \<Rightarrow>
               let self = \<lparr>self_q = q, self_q_targ_list = the_Qs qs,
                           self_pi_targ_list = pi_targ_list',
                           self_loss_function = loss_function,
                           self_value_transform = value_transform\<rparr>
               in
               if action_space_Discrete q then
                 (if length qs < 2
                  then Inl (ValueError ''len(q_targ_list) must be at least 2'')
                  else Inr (self, warnings))
               else
                 (case py_len pi_targ_list' of
                    Inl e \<Rightarrow> Inl e
                  | Inr n \<Rightarrow>
                      if length qs * n < 2
                      then Inl (ValueError
                        ''len(q_targ_list) * len(pi_targ_list) must be at least 2'')
                      else Inr (self, warnings))))"

subsection \<open>\<^verbatim>\<open>target_func\<close>\<close>

text \<open>
  Lines 239 to 243 and 256 to 260: the inner loop evaluates every \<^verbatim>\<open>q_j\<close> at
  \<^verbatim>\<open>(S_next, A_next)\<close> with a fresh sub-key and appends the values to the list.
\<close>

fun evaluate_on_q ::
  "'k split \<Rightarrow> (('p, 'st, 'k, 's, 'a, 'c) Q \<times> 'p \<times> 'st) list \<Rightarrow> 's \<Rightarrow> 'c actions \<Rightarrow>
   'k \<Rightarrow> vec list \<Rightarrow> 'k \<times> vec list" where
  "evaluate_on_q split [] S_next A_next rngs Q_sa_next_list = (rngs, Q_sa_next_list)"
| "evaluate_on_q split ((q_j, params_j, state_j) # qs) S_next A_next rngs Q_sa_next_list =
     (let (rngs', key) = split rngs;
          (Q_sa_next, _) = function_type1 q_j params_j state_j key S_next A_next False
      in evaluate_on_q split qs S_next A_next rngs' (Q_sa_next_list @ [Q_sa_next]))"

text \<open>Lines 232 to 243: the outer loop of the discrete branch.\<close>

fun discrete_loop ::
  "'k split \<Rightarrow> (('p, 'st, 'k, 's, 'a, 'c) Q \<times> 'p \<times> 'st) list \<Rightarrow>
   (('p, 'st, 'k, 's, 'a, 'c) Q \<times> 'p \<times> 'st) list \<Rightarrow> 's \<Rightarrow>
   'k \<Rightarrow> vec list \<Rightarrow> error + ('k \<times> vec list)" where
  "discrete_loop split [] qs S_next rngs Q_sa_next_list = Inr (rngs, Q_sa_next_list)"
| "discrete_loop split ((q_i, params_i, state_i) # rest) qs S_next rngs Q_sa_next_list =
     (let (rngs', key) = split rngs;
          (Q_s_next, _) = function_type2 q_i params_i state_i key S_next False
      in case greedy_A_next Q_s_next of
           Inl e \<Rightarrow> Inl e
         | Inr A_next \<Rightarrow>
             let (rngs'', Q_sa_next_list') =
                   evaluate_on_q split qs S_next (Weights A_next) rngs' Q_sa_next_list
             in discrete_loop split rest qs S_next rngs'' Q_sa_next_list')"

text \<open>
  Lines 251 to 260: the outer loop of the other branch. An element of
  \<^verbatim>\<open>pi_targ_list\<close> that is not a policy has no attribute \<^verbatim>\<open>function\<close>.
\<close>

fun continuous_loop ::
  "'k split \<Rightarrow> (('p, 'st, 'k, 's, 'a, 'c, 'd) target_obj \<times> 'p \<times> 'st) list \<Rightarrow>
   (('p, 'st, 'k, 's, 'a, 'c) Q \<times> 'p \<times> 'st) list \<Rightarrow> 's \<Rightarrow>
   'k \<Rightarrow> vec list \<Rightarrow> error + ('k \<times> vec list)" where
  "continuous_loop split [] qs S_next rngs Q_sa_next_list = Inr (rngs, Q_sa_next_list)"
| "continuous_loop split ((IsPolicy pi_i, params_i, state_i) # rest) qs S_next rngs
      Q_sa_next_list =
     (let (rngs', key) = split rngs;
          (dist_params, _) = policy_function pi_i params_i state_i key S_next False;
          A_next = proba_dist_mode pi_i dist_params;
          (rngs'', Q_sa_next_list') =
             evaluate_on_q split qs S_next (Cont A_next) rngs' Q_sa_next_list
      in continuous_loop split rest qs S_next rngs'' Q_sa_next_list')"
| "continuous_loop split ((IsQ q, params_i, state_i) # rest) qs S_next rngs Q_sa_next_list =
     Inl AttributeError"
| "continuous_loop split ((OtherObj, params_i, state_i) # rest) qs S_next rngs
      Q_sa_next_list =
     Inl AttributeError"

text \<open>Lines 227 to 260: the list of values, one array per pair.\<close>

definition collect_Q_sa_next_list ::
  "'k split \<Rightarrow> ('p, 'st, 'k, 's, 'a, 'c, 'd) ClippedDoubleQLearning \<Rightarrow>
   'p target_bundle \<Rightarrow> 'st target_bundle \<Rightarrow> 'k \<Rightarrow> 's \<Rightarrow> error + vec list" where
  "collect_Q_sa_next_list split self target_params target_state rng S_next =
     (let qs = zip (self_q_targ_list self)
                 (zip (bundle_q_targ target_params) (bundle_q_targ target_state))
      in
      if action_space_Discrete (self_q self) then
        (case discrete_loop split qs qs S_next rng [] of
           Inl e \<Rightarrow> Inl e
         | Inr (rngs, Q_sa_next_list) \<Rightarrow> Inr Q_sa_next_list)
      else
        (case py_iter (self_pi_targ_list self) of
           Inl e \<Rightarrow> Inl e
         | Inr pi_list \<Rightarrow>
             let pis = zip pi_list
                         (zip (bundle_pi_targ target_params) (bundle_pi_targ target_state))
             in case continuous_loop split pis qs S_next rng [] of
                  Inl e \<Rightarrow> Inl e
                | Inr (rngs, Q_sa_next_list) \<Rightarrow> Inr Q_sa_next_list))"

text \<open>Lines 262 to 269: the minimum over the pairs and the bootstrapped target.\<close>

definition bootstrap ::
  "(vec \<Rightarrow> vec) \<times> (vec \<Rightarrow> vec) \<Rightarrow> vec \<Rightarrow> vec \<Rightarrow> vec list \<Rightarrow> error + vec" where
  "bootstrap value_transform Rn In Q_sa_next_list =
     (case stack_last Q_sa_next_list of
        Inl e \<Rightarrow> Inl e
      | Inr stacked \<Rightarrow>
          let Q_sa_next = min_last stacked;
              (f, f_inv) = value_transform
          in case broadcast2 (*) In (f_inv Q_sa_next) of
               Inl e \<Rightarrow> Inl e
             | Inr discounted \<Rightarrow>
                 (case broadcast2 (+) Rn discounted of
                    Inl e \<Rightarrow> Inl e
                  | Inr G \<Rightarrow> Inr (f G)))"

definition target_func ::
  "'k split \<Rightarrow> ('p, 'st, 'k, 's, 'a, 'c, 'd) ClippedDoubleQLearning \<Rightarrow>
   'p target_bundle \<Rightarrow> 'st target_bundle \<Rightarrow> 'k \<Rightarrow> ('s, 'a) TransitionBatch \<Rightarrow>
   error + vec" where
  "target_func split self target_params target_state rng transition_batch =
     (let Rn = batch_Rn transition_batch;
          In = batch_In transition_batch;
          S_next = batch_S_next transition_batch
      in case collect_Q_sa_next_list split self target_params target_state rng S_next of
           Inl e \<Rightarrow> Inl e
         | Inr Q_sa_next_list \<Rightarrow>
             bootstrap (self_value_transform self) Rn In Q_sa_next_list)"

subsection \<open>Lines 262 to 269 on values with infinities and NaN\<close>

text \<open>
  A floating-point value is a finite number, an infinity or NaN. Multiplication,
  addition and minimum are those of IEEE 754 on these values: \<open>0 * inf\<close> and
  \<open>inf - inf\<close> are NaN, and NaN propagates, also through \<^verbatim>\<open>jnp.min\<close>. The rounding and
  the overflow of a finite result are not modelled, and the two zeros are one value.
\<close>

datatype fval = Fin real | PInf | NInf | NaN

fun is_finite :: "fval \<Rightarrow> bool" where
  "is_finite (Fin a) = True"
| "is_finite PInf = False"
| "is_finite NInf = False"
| "is_finite NaN = False"

fun fmul :: "fval \<Rightarrow> fval \<Rightarrow> fval" where
  "fmul NaN y = NaN"
| "fmul x NaN = NaN"
| "fmul (Fin a) (Fin b) = Fin (a * b)"
| "fmul (Fin a) PInf = (if a = 0 then NaN else if 0 < a then PInf else NInf)"
| "fmul (Fin a) NInf = (if a = 0 then NaN else if 0 < a then NInf else PInf)"
| "fmul PInf (Fin b) = (if b = 0 then NaN else if 0 < b then PInf else NInf)"
| "fmul NInf (Fin b) = (if b = 0 then NaN else if 0 < b then NInf else PInf)"
| "fmul PInf PInf = PInf"
| "fmul PInf NInf = NInf"
| "fmul NInf PInf = NInf"
| "fmul NInf NInf = PInf"

fun fadd :: "fval \<Rightarrow> fval \<Rightarrow> fval" where
  "fadd NaN y = NaN"
| "fadd x NaN = NaN"
| "fadd (Fin a) (Fin b) = Fin (a + b)"
| "fadd (Fin a) PInf = PInf"
| "fadd (Fin a) NInf = NInf"
| "fadd PInf (Fin b) = PInf"
| "fadd NInf (Fin b) = NInf"
| "fadd PInf PInf = PInf"
| "fadd NInf NInf = NInf"
| "fadd PInf NInf = NaN"
| "fadd NInf PInf = NaN"

fun fmin :: "fval \<Rightarrow> fval \<Rightarrow> fval" where
  "fmin NaN y = NaN"
| "fmin x NaN = NaN"
| "fmin (Fin a) (Fin b) = Fin (min a b)"
| "fmin NInf y = NInf"
| "fmin x NInf = NInf"
| "fmin PInf y = y"
| "fmin x PInf = x"

text \<open>\<^verbatim>\<open>jnp.min(x, axis=-1)\<close> on one non-empty row of such values.\<close>

fun row_min_ieee :: "fval list \<Rightarrow> fval" where
  "row_min_ieee (x # xs) = fold fmin xs x"

text \<open>
  Lines 262 to 269 as in \<open>bootstrap\<close>, on arrays of such values. \<open>Q_sa_next_list\<close> is the
  list that the loops of lines 227 to 260 have collected: one array per pair, with the
  values the target Q-functions return at \<^verbatim>\<open>S_next\<close>.
\<close>

definition bootstrap_ieee ::
  "(fval list \<Rightarrow> fval list) \<times> (fval list \<Rightarrow> fval list) \<Rightarrow> fval list \<Rightarrow> fval list \<Rightarrow>
   fval list list \<Rightarrow> error + fval list" where
  "bootstrap_ieee value_transform Rn In Q_sa_next_list =
     (case stack_last Q_sa_next_list of
        Inl e \<Rightarrow> Inl e
      | Inr stacked \<Rightarrow>
          let Q_sa_next = map row_min_ieee stacked;
              (f, f_inv) = value_transform
          in case broadcast2 fmul In (f_inv Q_sa_next) of
               Inl e \<Rightarrow> Inl e
             | Inr discounted \<Rightarrow>
                 (case broadcast2 fadd Rn discounted of
                    Inl e \<Rightarrow> Inl e
                  | Inr G \<Rightarrow> Inr (f G)))"

subsection \<open>\<^verbatim>\<open>td_error_func\<close>\<close>

text \<open>
  Lines 186 to 193. \<^verbatim>\<open>jax.grad(loss, argnums=1)\<close> is the automatic differentiation of
  the numerical library: the operator is the parameter \<open>grad_argnums1\<close>.
\<close>

definition td_error_func ::
  "'k split \<Rightarrow> ((vec \<Rightarrow> vec \<Rightarrow> real) \<Rightarrow> vec \<Rightarrow> vec \<Rightarrow> vec) \<Rightarrow>
   ('p, 'st, 'k, 's, 'a, 'c, 'd) ClippedDoubleQLearning \<Rightarrow>
   'p \<Rightarrow> 'p target_bundle \<Rightarrow> 'st \<Rightarrow> 'st target_bundle \<Rightarrow> 'k \<Rightarrow>
   ('s, 'a) TransitionBatch \<Rightarrow> error + vec" where
  "td_error_func split grad_argnums1 self params target_params state target_state rng
      transition_batch =
     (let S = batch_S transition_batch;
          A = action_preprocessor (self_q self) (batch_A transition_batch);
          (rngs, key) = split rng
      in case target_func split self target_params target_state key transition_batch of
           Inl e \<Rightarrow> Inl e
         | Inr G \<Rightarrow>
             let (rngs', key') = split rngs;
                 (Q, _) = function_type1 (self_q self) params state key' S A False;
                 dL_dQ = grad_argnums1 (self_loss_function self)
             in Inr (map uminus (dL_dQ G Q)))"

subsection \<open>The pair evaluations, as the specification describes them\<close>

text \<open>
  The definitions of this subsection are not translated from the loops of the source:
  they state, by index, what the specification says the loops compute, and the theorems
  below compare the two.
\<close>

text \<open>The state of the key sequence after \<open>n\<close> draws, and the \<open>n\<close>-th key drawn (from 0).\<close>

primrec nth_rngs :: "'k split \<Rightarrow> nat \<Rightarrow> 'k \<Rightarrow> 'k" where
  "nth_rngs split 0 rng = rng"
| "nth_rngs split (Suc n) rng = nth_rngs split n (fst (split rng))"

definition nth_key :: "'k split \<Rightarrow> 'k \<Rightarrow> nat \<Rightarrow> 'k" where
  "nth_key split rng n = snd (split (nth_rngs split n rng))"

text \<open>
  A target Q-function with its parameters and its function state, evaluated outside
  training: the state-action form and the per-action form.
\<close>

definition Q_sa ::
  "(('p, 'st, 'k, 's, 'a, 'c) Q \<times> 'p \<times> 'st) \<Rightarrow> 'k \<Rightarrow> 's \<Rightarrow> 'c actions \<Rightarrow> vec" where
  "Q_sa x key S A =
     (case x of (q, params, state) \<Rightarrow> fst (function_type1 q params state key S A False))"

definition Q_s :: "(('p, 'st, 'k, 's, 'a, 'c) Q \<times> 'p \<times> 'st) \<Rightarrow> 'k \<Rightarrow> 's \<Rightarrow> mat" where
  "Q_s x key S =
     (case x of (q, params, state) \<Rightarrow> fst (function_type2 q params state key S False))"

text \<open>The uniform distribution over the actions that attain the maximum of a row.\<close>

definition uniform_argmax :: "real list \<Rightarrow> real list" where
  "uniform_argmax row =
     map (\<lambda>x. if x = Max (set row) then 1 / real (count_list row (Max (set row))) else 0) row"

text \<open>The next action a selector chooses: a target Q-function, or a target policy.\<close>

definition discrete_A_next ::
  "(('p, 'st, 'k, 's, 'a, 'c) Q \<times> 'p \<times> 'st) \<Rightarrow> 'k \<Rightarrow> 's \<Rightarrow> 'c actions" where
  "discrete_A_next x key S = Weights (map uniform_argmax (Q_s x key S))"

definition policy_A_next ::
  "(('p, 'st, 'k, 's, 'c, 'd) Policy \<times> 'p \<times> 'st) \<Rightarrow> 'k \<Rightarrow> 's \<Rightarrow> 'c actions" where
  "policy_A_next x key S =
     (case x of (pol, params, state) \<Rightarrow>
        Cont (proba_dist_mode pol (fst (policy_function pol params state key S False))))"

text \<open>
  With \<open>n\<close> evaluators, selector \<open>i\<close> draws key number \<open>i * (n + 1)\<close> and its pair with
  evaluator \<open>j\<close> draws key number \<open>i * (n + 1) + 1 + j\<close>.
\<close>

definition pair_value ::
  "'k split \<Rightarrow> ('k \<Rightarrow> 's \<Rightarrow> 'c actions) list \<Rightarrow>
   (('p, 'st, 'k, 's, 'a, 'c) Q \<times> 'p \<times> 'st) list \<Rightarrow> 'k \<Rightarrow> 's \<Rightarrow> nat \<Rightarrow> nat \<Rightarrow> vec" where
  "pair_value split sels qs rng S i j =
     Q_sa (qs ! j) (nth_key split rng (i * (length qs + 1) + 1 + j)) S
       ((sels ! i) (nth_key split rng (i * (length qs + 1))) S)"

definition all_pairs ::
  "'k split \<Rightarrow> ('k \<Rightarrow> 's \<Rightarrow> 'c actions) list \<Rightarrow>
   (('p, 'st, 'k, 's, 'a, 'c) Q \<times> 'p \<times> 'st) list \<Rightarrow> 'k \<Rightarrow> 's \<Rightarrow> vec list" where
  "all_pairs split sels qs rng S =
     concat (map (\<lambda>i. map (\<lambda>j. pair_value split sels qs rng S i j) [0..<length qs])
       [0..<length sels])"

fun the_Policies :: "('q, 'pi) pyobj list \<Rightarrow> 'pi list" where
  "the_Policies [] = []"
| "the_Policies (IsPolicy pol # xs) = pol # the_Policies xs"
| "the_Policies (IsQ q # xs) = the_Policies xs"
| "the_Policies (OtherObj # xs) = the_Policies xs"

text \<open>The evaluators and the selectors of an object, with their parameters and states.\<close>

definition evaluators ::
  "('p, 'st, 'k, 's, 'a, 'c, 'd) ClippedDoubleQLearning \<Rightarrow> 'p target_bundle \<Rightarrow>
   'st target_bundle \<Rightarrow> (('p, 'st, 'k, 's, 'a, 'c) Q \<times> 'p \<times> 'st) list" where
  "evaluators self target_params target_state =
     zip (self_q_targ_list self)
       (zip (bundle_q_targ target_params) (bundle_q_targ target_state))"

definition selectors ::
  "('p, 'st, 'k, 's, 'a, 'c, 'd) ClippedDoubleQLearning \<Rightarrow> 'p target_bundle \<Rightarrow>
   'st target_bundle \<Rightarrow> ('k \<Rightarrow> 's \<Rightarrow> 'c actions) list" where
  "selectors self target_params target_state =
     (if action_space_Discrete (self_q self)
      then map discrete_A_next (evaluators self target_params target_state)
      else
        (case py_iter (self_pi_targ_list self) of
           Inl e \<Rightarrow> []
         | Inr pi_list \<Rightarrow>
             map policy_A_next
               (zip (the_Policies pi_list)
                  (zip (bundle_pi_targ target_params) (bundle_pi_targ target_state)))))"

text \<open>
  The inputs on which nothing raises and nothing is broadcast: there is a selector and
  an evaluator, a per-action matrix has no empty row, the policy list is a list or tuple
  of policies, and the rewards, the discounts and every pair evaluation have one value
  per transition.
\<close>

definition well_shaped ::
  "'k split \<Rightarrow> ('p, 'st, 'k, 's, 'a, 'c, 'd) ClippedDoubleQLearning \<Rightarrow> 'p target_bundle \<Rightarrow>
   'st target_bundle \<Rightarrow> 'k \<Rightarrow> ('s, 'a) TransitionBatch \<Rightarrow> bool" where
  "well_shaped split self target_params target_state rng transition_batch =
     (let qs = evaluators self target_params target_state;
          sels = selectors self target_params target_state;
          S_next = batch_S_next transition_batch
      in qs \<noteq> [] \<and> sels \<noteq> [] \<and>
         length (batch_In transition_batch) = length (batch_Rn transition_batch) \<and>
         (if action_space_Discrete (self_q self)
          then \<forall>i < length qs.
                 [] \<notin> set (Q_s (qs ! i) (nth_key split rng (i * (length qs + 1))) S_next)
          else (case py_iter (self_pi_targ_list self) of
                  Inl e \<Rightarrow> False
                | Inr pi_list \<Rightarrow> list_all isinstance_Policy pi_list)) \<and>
         (\<forall>i < length sels. \<forall>j < length qs.
            length (pair_value split sels qs rng S_next i j)
              = length (batch_Rn transition_batch)))"

text \<open>
  A target Q-function whose values at a batch of states do not depend on the key it is
  handed.
\<close>

definition key_independent ::
  "(('p, 'st, 'k, 's, 'a, 'c) Q \<times> 'p \<times> 'st) \<Rightarrow> 's \<Rightarrow> bool" where
  "key_independent x S \<longleftrightarrow>
     (\<forall>key key' A. Q_sa x key S A = Q_sa x key' S A) \<and>
     (\<forall>key key'. Q_s x key S = Q_s x key' S)"

text \<open>
  The bootstrapped target of one network \<open>q\<close>:
  \<open>f (Rn + In * f_inv (q (S_next, argmax q (S_next, \<cdot>))))\<close>, where the greedy action is the
  distribution of lines 235 and 236, the per-action values are computed with the key
  \<open>key\<close> and the state-action values with the key \<open>key'\<close>.
\<close>

definition single_network_target ::
  "(vec \<Rightarrow> vec) \<times> (vec \<Rightarrow> vec) \<Rightarrow> vec \<Rightarrow> vec \<Rightarrow>
   (('p, 'st, 'k, 's, 'a, 'c) Q \<times> 'p \<times> 'st) \<Rightarrow> 'k \<Rightarrow> 'k \<Rightarrow> 's \<Rightarrow> error + vec" where
  "single_network_target value_transform Rn In x key key' S_next =
     (case greedy_A_next (Q_s x key S_next) of
        Inl e \<Rightarrow> Inl e
      | Inr A_next \<Rightarrow>
          let (f, f_inv) = value_transform;
              Q_sa_next = Q_sa x key' S_next (Weights A_next)
          in case broadcast2 (*) In (f_inv Q_sa_next) of
               Inl e \<Rightarrow> Inl e
             | Inr discounted \<Rightarrow>
                 (case broadcast2 (+) Rn discounted of
                    Inl e \<Rightarrow> Inl e
                  | Inr G \<Rightarrow> Inr (f G)))"

text \<open>
  The contract of the differentiation operator at one point: \<open>D\<close> is the array of the
  partial derivatives of the loss with respect to the entries of its second argument,
  at \<open>(G, Q)\<close>.
\<close>

definition is_dL_dQ :: "(vec \<Rightarrow> vec \<Rightarrow> real) \<Rightarrow> vec \<Rightarrow> vec \<Rightarrow> vec \<Rightarrow> bool" where
  "is_dL_dQ loss G Q D \<longleftrightarrow>
     length D = length Q \<and>
     (\<forall>i < length Q. ((\<lambda>x. loss G (Q[i := x])) has_real_derivative D ! i) (at (Q ! i)))"

subsection \<open>Instances for evaluation\<close>

text \<open>
  Concrete collaborators at which the theorems below are evaluated. A batch of states
  is represented by its number of rows, a key by a natural number.
\<close>

type_synonym ex_Q = "(unit, unit, nat, nat, nat list, real list) Q"
type_synonym ex_Policy = "(unit, unit, nat, nat, real list, real list) Policy"
type_synonym ex_obj = "(unit, unit, nat, nat, nat list, real list, real list) target_obj"
type_synonym ex_self =
  "(unit, unit, nat, nat, nat list, real list, real list) ClippedDoubleQLearning"

definition ex_split :: "nat split" where
  "ex_split k = (2 * k + 1, 2 * k + 2)"

definition one_hot :: "nat \<Rightarrow> nat \<Rightarrow> real list" where
  "one_hot n a = map (\<lambda>i. if i = a then 1 else 0) [0..<n]"

text \<open>
  A Q-function given by a table of per-action values, the same for every state: its
  per-action form returns the table in every row, its state-action form contracts the
  weights of a row with the table (a discrete space) or scales the action (otherwise).
\<close>

definition table_q :: "bool \<Rightarrow> real list \<Rightarrow> ex_Q" where
  "table_q discrete table =
     \<lparr>action_space_Discrete = discrete,
      action_preprocessor = (\<lambda>A. Weights (map (one_hot (length table)) A)),
      function_type1 = (\<lambda>params state key S A is_training.
         (case A of
            Weights W \<Rightarrow> map (\<lambda>w. sum_list (map2 (*) w table)) W
          | Cont c \<Rightarrow> map (\<lambda>a. sum_list table * a) c, state)),
      function_type2 = (\<lambda>params state key S is_training. (replicate S table, state))\<rparr>"

text \<open>A Q-function whose state-action values depend on the key it is handed.\<close>

definition keyed_q :: "real list \<Rightarrow> ex_Q" where
  "keyed_q table =
     \<lparr>action_space_Discrete = True,
      action_preprocessor = (\<lambda>A. Weights (map (one_hot (length table)) A)),
      function_type1 = (\<lambda>params state key S A is_training. (replicate S (- real key), state)),
      function_type2 = (\<lambda>params state key S is_training. (replicate S table, state))\<rparr>"

text \<open>A policy whose mode is the same action in every row.\<close>

definition const_pi :: "real \<Rightarrow> ex_Policy" where
  "const_pi a =
     \<lparr>policy_function = (\<lambda>params state key S is_training. (replicate S a, state)),
      proba_dist_mode = (\<lambda>dist_params. dist_params)\<rparr>"

definition half_squares :: "vec \<Rightarrow> vec \<Rightarrow> real" where
  "half_squares G Q = sum_list (map2 (\<lambda>g q. (q - g)\<^sup>2 / 2) G Q)"

definition identity_transform :: "(vec \<Rightarrow> vec) \<times> (vec \<Rightarrow> vec)" where
  "identity_transform = (\<lambda>x. x, \<lambda>x. x)"

definition ex_discrete :: ex_self where
  "ex_discrete =
     \<lparr>self_q = table_q True [1, 2],
      self_q_targ_list = [table_q True [1, 2], table_q True [3, 1]],
      self_pi_targ_list = PyList [],
      self_loss_function = half_squares,
      self_value_transform = identity_transform\<rparr>"

definition ex_continuous :: ex_self where
  "ex_continuous =
     \<lparr>self_q = table_q False [2],
      self_q_targ_list = [table_q False [2], table_q False [3]],
      self_pi_targ_list = PyList [IsPolicy (const_pi 1), IsPolicy (const_pi (- 1))],
      self_loss_function = half_squares,
      self_value_transform = identity_transform\<rparr>"

definition ex_bundle :: "unit target_bundle" where
  "ex_bundle = \<lparr>bundle_q = (), bundle_q_targ = [(), ()], bundle_pi_targ = [(), ()]\<rparr>"

definition ex_batch :: "(nat, nat list) TransitionBatch" where
  "ex_batch =
     \<lparr>batch_S = 2, batch_A = [0, 1], batch_Rn = [1, 3], batch_In = [1 / 2, 0],
      batch_S_next = 2\<rparr>"

text \<open>
  The scenario of four transitions over two actions: both target Q-functions have the
  table \<open>[1, 2]\<close>, the rewards are 0 and the discounts are 0.99.
\<close>

definition scenario_self :: ex_self where
  "scenario_self =
     \<lparr>self_q = table_q True [1, 2],
      self_q_targ_list = [table_q True [1, 2], table_q True [1, 2]],
      self_pi_targ_list = PyList [],
      self_loss_function = half_squares,
      self_value_transform = identity_transform\<rparr>"

definition scenario_batch :: "(nat, nat list) TransitionBatch" where
  "scenario_batch =
     \<lparr>batch_S = 4, batch_A = [0, 1, 1, 0], batch_Rn = [0, 0, 0, 0],
      batch_In = [0.99, 0.99, 0.99, 0.99], batch_S_next = 4\<rparr>"

definition keyed_self :: ex_self where
  "keyed_self =
     \<lparr>self_q = keyed_q [1, 2],
      self_q_targ_list = [keyed_q [1, 2], keyed_q [1, 2]],
      self_pi_targ_list = PyList [],
      self_loss_function = half_squares,
      self_value_transform = identity_transform\<rparr>"

text \<open>
  The value transform \<open>f x = x / 2\<close>, \<open>f_inv x = 2 * x\<close> in single precision: doubling a
  value of magnitude \<open>2 ^ 127\<close> or more overflows to an infinity.
\<close>

definition double32 :: "fval \<Rightarrow> fval" where
  "double32 x =
     (case fmul (Fin 2) x of
        Fin a \<Rightarrow> if 2 ^ 128 \<le> a then PInf else if a \<le> - (2 ^ 128) then NInf else Fin a
      | y \<Rightarrow> y)"

definition halve :: "fval \<Rightarrow> fval" where
  "halve x = fmul (Fin (1 / 2)) x"

text \<open>The gradient of \<open>half_squares\<close> in its second argument.\<close>

definition ex_grad :: "(vec \<Rightarrow> vec \<Rightarrow> real) \<Rightarrow> vec \<Rightarrow> vec \<Rightarrow> vec" where
  "ex_grad loss G Q = map2 (\<lambda>g q. q - g) G Q"

section \<open>Properties\<close>

subsection \<open>Array helpers\<close>

lemma fold_max_eq_Max: "fold max xs (x::real) = Max (insert x (set xs))"
proof (induction xs arbitrary: x)
  case Nil
  show ?case by simp
next
  case (Cons y ys)
  have "Max (insert (max y x) (set ys)) = Max (insert x (insert y (set ys)))"
    by (cases "set ys = {}") (simp_all add: max.commute max.left_commute)
  with Cons show ?case by simp
qed

lemma row_max_eq_Max: "row \<noteq> [] \<Longrightarrow> row_max row = Max (set row)"
  by (cases row) (simp_all add: fold_max_eq_Max)

lemma fold_min_eq_Min: "fold min xs (x::real) = Min (insert x (set xs))"
proof (induction xs arbitrary: x)
  case Nil
  show ?case by simp
next
  case (Cons y ys)
  have "Min (insert (min y x) (set ys)) = Min (insert x (insert y (set ys)))"
    by (cases "set ys = {}") (simp_all add: min.commute min.left_commute)
  with Cons show ?case by simp
qed

lemma row_min_eq_Min: "row \<noteq> [] \<Longrightarrow> row_min row = Min (set row)"
  by (cases row) (simp_all add: fold_min_eq_Min)

lemma sum_list_indicator:
  "sum_list (map (\<lambda>x. if x = m then 1 else 0) row) = real (count_list row (m::real))"
  by (induction row) simp_all

lemma sum_list_divide: "sum_list (map (\<lambda>x. x / c) xs) = sum_list xs / (c::real)"
  by (induction xs) (simp_all add: add_divide_distrib)

subsection \<open>The greedy next-action distribution\<close>

lemma greedy_row:
  assumes "row \<noteq> []"
  defines "ind \<equiv> map (\<lambda>x. if x = row_max row then 1 else 0 :: real) row"
  defines "A \<equiv> map (\<lambda>x. x / sum_list ind) ind"
  shows "length A = length row"
    and "0 < count_list row (Max (set row))"
    and "\<forall>a < length row. A ! a =
           (if row ! a = Max (set row) then 1 / real (count_list row (Max (set row))) else 0)"
    and "sum_list A = 1"
proof -
  let ?m = "Max (set row)"
  have m: "row_max row = ?m" using assms(1) by (rule row_max_eq_Max)
  have "?m \<in> set row" using assms(1) by simp
  then show pos: "0 < count_list row ?m"
    by (simp add: count_list_0_iff zero_less_iff_neq_zero)
  have s: "sum_list ind = real (count_list row ?m)"
    unfolding ind_def m by (rule sum_list_indicator)
  show "length A = length row" by (simp add: A_def ind_def)
  show "\<forall>a < length row. A ! a = (if row ! a = ?m then 1 / real (count_list row ?m) else 0)"
    by (simp add: A_def s) (simp add: ind_def m)
  show "sum_list A = 1"
    unfolding A_def sum_list_divide using pos s by simp
qed

text \<open>
  C3. In the discrete branch, for a per-action value matrix without an empty row, the
  next-action distribution of lines 235 and 236 is computed, and each of its rows gives
  one and the same positive weight to every action that attains the maximum of the row,
  weight zero to every other action, and sums to 1.
\<close>

theorem greedy_A_next_uniform_on_maximisers:
  assumes "[] \<notin> set Q_s_next"
  shows "\<exists>A_next. greedy_A_next Q_s_next = Inr A_next \<and> length A_next = length Q_s_next \<and>
           (\<forall>r < length Q_s_next.
              length (A_next ! r) = length (Q_s_next ! r) \<and>
              (\<exists>w > 0. \<forall>a < length (Q_s_next ! r).
                 A_next ! r ! a = (if Q_s_next ! r ! a = Max (set (Q_s_next ! r)) then w else 0)) \<and>
              sum_list (A_next ! r) = 1)"
proof -
  define A_next where
    "A_next = map (\<lambda>row. map (\<lambda>x. x / sum_list (map (\<lambda>x. if x = row_max row then 1 else 0) row))
                (map (\<lambda>x. if x = row_max row then 1 else 0 :: real) row)) Q_s_next"
  have eq: "greedy_A_next Q_s_next = Inr A_next"
    using assms by (simp add: greedy_A_next_def A_next_def Let_def comp_def)
  have rows: "length (A_next ! r) = length (Q_s_next ! r) \<and>
      (\<exists>w > 0. \<forall>a < length (Q_s_next ! r).
         A_next ! r ! a = (if Q_s_next ! r ! a = Max (set (Q_s_next ! r)) then w else 0)) \<and>
      sum_list (A_next ! r) = 1" if r: "r < length Q_s_next" for r
  proof -
    let ?row = "Q_s_next ! r"
    have ne: "?row \<noteq> []" using assms r by (metis nth_mem)
    have Ar: "A_next ! r = map (\<lambda>x. x / sum_list (map (\<lambda>x. if x = row_max ?row then 1 else 0) ?row))
                (map (\<lambda>x. if x = row_max ?row then 1 else 0) ?row)"
      using r by (simp add: A_next_def)
    note g = greedy_row [OF ne, folded Ar]
    have "\<exists>w > 0. \<forall>a < length ?row.
            A_next ! r ! a = (if ?row ! a = Max (set ?row) then w else 0)"
      using g(2) g(3) by (intro exI [of _ "1 / real (count_list ?row (Max (set ?row)))"]) simp
    with g(1) g(4) show ?thesis by simp
  qed
  have "length A_next = length Q_s_next" by (simp add: A_next_def)
  with eq rows show ?thesis by blast
qed

theorem greedy_A_next_uniform_on_maximisers_witness:
  "[] \<notin> set [[1, 2, 2], [3, 1, 0 :: real]] \<and>
   greedy_A_next [[1, 2, 2], [3, 1, 0]] = Inr [[0, 1 / 2, 1 / 2], [1, 0, 0]] \<and>
   (\<exists>A_next. greedy_A_next [[1, 2, 2], [3, 1, 0]] = Inr A_next \<and> sum_list (A_next ! 0) = 1)"
proof -
  have h: "[] \<notin> set [[1, 2, 2], [3, 1, 0 :: real]]" by simp
  have v: "greedy_A_next [[1, 2, 2], [3, 1, 0]] = Inr [[0, 1 / 2, 1 / 2], [1, 0, 0]]"
    by (simp add: greedy_A_next_def)
  from greedy_A_next_uniform_on_maximisers [OF h]
  have "\<exists>A_next. greedy_A_next [[1, 2, 2], [3, 1, 0]] = Inr A_next \<and> sum_list (A_next ! 0) = 1"
    by fastforce
  with h v show ?thesis by blast
qed

subsection \<open>The constructor\<close>

lemma check_all_Q_eq:
  "check_all_Q qs = (if list_all isinstance_Q qs then Inr ()
                     else Inl (TypeError ''all q_targ in q_targ_list must be a coax.Q''))"
  by (induction qs) simp_all

lemma check_all_Policy_eq:
  "check_all_Policy pis = (if list_all isinstance_Policy pis then Inr ()
                     else Inl (TypeError ''all pi_targ in pi_targ_list must be a coax.Policy''))"
  by (induction pis) simp_all

lemma py_iter_Inr:
  "py_iter x = Inr xs \<Longrightarrow> is_tuple_or_list x \<and> \<not> is_None x \<and> py_len x = Inr (length xs)"
  by (cases x) auto

lemmas init_defs =
  init_def check_input_lists_def check_pi_targ_list_def check_q_targ_list_def
  check_all_Policy_eq check_all_Q_eq Let_def

text \<open>
  C6. With a discrete action space the constructor raises when \<^verbatim>\<open>q_targ_list\<close> is not
  a list or tuple and when it has fewer than 2 entries. With at least 2 entries it
  does not raise the error of line 136, and it returns an object when moreover every
  entry is a \<^verbatim>\<open>Q\<close>.
\<close>

theorem init_discrete_needs_two_q_targ:
  assumes "action_space_Discrete q"
  shows "(\<not> is_tuple_or_list q_targ_list \<longrightarrow>
            (\<exists>e. init q pi_targ_list q_targ_list loss_function value_transform = Inl e)) \<and>
         (\<forall>qs. py_iter q_targ_list = Inr qs \<longrightarrow>
            (length qs < 2 \<longrightarrow>
               (\<exists>e. init q pi_targ_list q_targ_list loss_function value_transform = Inl e)) \<and>
            (2 \<le> length qs \<longrightarrow>
               init q pi_targ_list q_targ_list loss_function value_transform
                 \<noteq> Inl (ValueError ''len(q_targ_list) must be at least 2'') \<and>
               (list_all isinstance_Q qs \<longrightarrow>
                  (\<exists>self warnings. init q pi_targ_list q_targ_list loss_function value_transform
                      = Inr (self, warnings) \<and> self_q_targ_list self = the_Qs qs))))"
proof (intro conjI allI impI)
  assume "\<not> is_tuple_or_list q_targ_list"
  then show "\<exists>e. init q pi_targ_list q_targ_list loss_function value_transform = Inl e"
    by (auto simp: init_def check_input_lists_def check_q_targ_list_def split: sum.splits)
next
  fix qs assume "py_iter q_targ_list = Inr qs" "length qs < 2"
  then show "\<exists>e. init q pi_targ_list q_targ_list loss_function value_transform = Inl e"
    using assms by (auto simp: init_def Let_def split: sum.splits)
next
  fix qs assume "py_iter q_targ_list = Inr qs" "2 \<le> length qs"
  then show "init q pi_targ_list q_targ_list loss_function value_transform
                 \<noteq> Inl (ValueError ''len(q_targ_list) must be at least 2'')"
    using assms py_iter_Inr [of q_targ_list qs]
    by (auto simp: init_defs split: sum.splits if_splits)
next
  fix qs assume "py_iter q_targ_list = Inr qs" "2 \<le> length qs" "list_all isinstance_Q qs"
  then show "\<exists>self warnings. init q pi_targ_list q_targ_list loss_function value_transform
                      = Inr (self, warnings) \<and> self_q_targ_list self = the_Qs qs"
    using assms py_iter_Inr [of q_targ_list qs]
    by (auto simp: init_defs split: sum.splits if_splits)
qed

theorem init_discrete_needs_two_q_targ_witness:
  "action_space_Discrete (table_q True [1, 2]) \<and>
   init (table_q True [1, 2]) (PyNone :: ex_obj pyarg) (PyList [IsQ (table_q True [1, 2])])
     half_squares identity_transform
     = Inl (ValueError ''len(q_targ_list) must be at least 2'') \<and>
   (\<exists>self warnings.
      init (table_q True [1, 2]) (PyNone :: ex_obj pyarg)
        (PyList [IsQ (table_q True [1, 2]), IsQ (table_q True [3, 0])])
        half_squares identity_transform = Inr (self, warnings) \<and>
      self_q_targ_list self = [table_q True [1, 2], table_q True [3, 0]])"
proof -
  let ?q = "table_q True [1, 2]"
  have d: "action_space_Discrete ?q" by (simp add: table_q_def)
  have one: "init ?q (PyNone :: ex_obj pyarg) (PyList [IsQ ?q]) half_squares identity_transform
      = Inl (ValueError ''len(q_targ_list) must be at least 2'')"
    by (simp add: init_defs d)
  from init_discrete_needs_two_q_targ [OF d,
      of "PyList [IsQ ?q, IsQ (table_q True [3, 0])]" "PyNone :: ex_obj pyarg"
         half_squares identity_transform]
  have "\<exists>self warnings.
      init ?q (PyNone :: ex_obj pyarg) (PyList [IsQ ?q, IsQ (table_q True [3, 0])])
        half_squares identity_transform = Inr (self, warnings) \<and>
      self_q_targ_list self = [?q, table_q True [3, 0]]"
    by simp
  with d one show ?thesis by blast
qed

text \<open>
  C7. With an action space that is not discrete the constructor raises when
  \<^verbatim>\<open>pi_targ_list\<close> is \<^verbatim>\<open>None\<close>, is not a list or tuple, is empty or has an element
  that is not a \<^verbatim>\<open>Policy\<close>, and when the product of the two lengths is below 2. In
  every other case the only errors left are those of the checks of \<^verbatim>\<open>q_targ_list\<close>
  (lines 290 to 296), and the constructor returns an object, without a warning, when
  these pass.
\<close>

theorem init_continuous_checks:
  fixes q pi_targ_list q_targ_list loss_function value_transform
  assumes "\<not> action_space_Discrete q"
  defines "r \<equiv> init q pi_targ_list q_targ_list loss_function value_transform"
  defines "bad \<equiv> is_None pi_targ_list \<or> \<not> is_tuple_or_list pi_targ_list \<or>
      (\<exists>pis. py_iter pi_targ_list = Inr pis \<and> (pis = [] \<or> \<not> list_all isinstance_Policy pis)) \<or>
      (\<exists>pis qs. py_iter pi_targ_list = Inr pis \<and> py_iter q_targ_list = Inr qs \<and>
                 length qs * length pis < 2)"
  shows "(bad \<longrightarrow> (\<exists>e. r = Inl e)) \<and>
         (\<not> bad \<longrightarrow>
            (\<forall>e. r = Inl e \<longrightarrow> check_q_targ_list q_targ_list = Inl e) \<and>
            (check_q_targ_list q_targ_list = Inr () \<longrightarrow> (\<exists>self. r = Inr (self, []))))"
proof (intro conjI impI allI)
  assume bad
  then show "\<exists>e. r = Inl e"
    unfolding bad_def r_def using assms(1)
    by (cases pi_targ_list; cases q_targ_list)
       (auto simp: init_defs split: sum.splits if_splits)
next
  fix e assume "\<not> bad" "r = Inl e"
  then show "check_q_targ_list q_targ_list = Inl e"
    unfolding bad_def r_def using assms(1)
    by (cases pi_targ_list; cases q_targ_list)
       (auto simp: init_defs split: sum.splits if_splits)
next
  assume "\<not> bad" "check_q_targ_list q_targ_list = Inr ()"
  then show "\<exists>self. r = Inr (self, [])"
    unfolding bad_def r_def using assms(1)
    by (cases pi_targ_list; cases q_targ_list)
       (auto simp: init_defs split: sum.splits if_splits)
qed

theorem init_continuous_checks_witness:
  "\<not> action_space_Discrete (table_q False [1]) \<and>
   init (table_q False [1]) (PyNone :: ex_obj pyarg)
     (PyList [IsQ (table_q False [1]), IsQ (table_q False [2])]) half_squares identity_transform
     = Inl (TypeError ''pi_targ_list must be provided if action space is not discrete'') \<and>
   init (table_q False [1]) (PyList [IsPolicy (const_pi 1)] :: ex_obj pyarg)
     (PyList [IsQ (table_q False [1])]) half_squares identity_transform
     = Inl (ValueError ''len(q_targ_list) * len(pi_targ_list) must be at least 2'') \<and>
   (\<exists>self. init (table_q False [1]) (PyList [IsPolicy (const_pi 1)] :: ex_obj pyarg)
     (PyList [IsQ (table_q False [1]), IsQ (table_q False [2])]) half_squares identity_transform
     = Inr (self, []))"
proof -
  let ?q = "table_q False [1]"
  let ?qs = "PyList [IsQ ?q, IsQ (table_q False [2])] :: ex_obj pyarg"
  let ?pis = "PyList [IsPolicy (const_pi 1)] :: ex_obj pyarg"
  have d: "\<not> action_space_Discrete ?q" by (simp add: table_q_def)
  have none: "init ?q (PyNone :: ex_obj pyarg) ?qs half_squares identity_transform
     = Inl (TypeError ''pi_targ_list must be provided if action space is not discrete'')"
    by (simp add: init_defs d)
  have prod: "init ?q ?pis (PyList [IsQ ?q]) half_squares identity_transform
     = Inl (ValueError ''len(q_targ_list) * len(pi_targ_list) must be at least 2'')"
    by (simp add: init_defs d)
  have chk: "check_q_targ_list ?qs = Inr ()"
    by (simp add: check_q_targ_list_def)
  from init_continuous_checks [OF d, of ?pis ?qs half_squares identity_transform] chk
  have "\<exists>self. init ?q ?pis ?qs half_squares identity_transform = Inr (self, [])"
    by simp
  with d none prod show ?thesis by blast
qed

subsection \<open>A policy list with a discrete action space\<close>

lemma collect_discrete_ignores_pi:
  assumes "action_space_Discrete (self_q self)"
  shows "collect_Q_sa_next_list split self tp ts rng S_next =
         collect_Q_sa_next_list split (self\<lparr>self_pi_targ_list := x\<rparr>)
           (tp\<lparr>bundle_pi_targ := y\<rparr>) (ts\<lparr>bundle_pi_targ := z\<rparr>) rng S_next"
  using assms by (simp add: collect_Q_sa_next_list_def)

text \<open>
  C8. With a discrete action space, a \<^verbatim>\<open>pi_targ_list\<close> that is not \<^verbatim>\<open>None\<close> makes the
  constructor raise exactly when it raises without it. When an object is returned, the
  one warning of line 275 has been issued, and \<^verbatim>\<open>target_func\<close> of this object returns
  what it returns for the object constructed without a policy list, whatever the
  \<^verbatim>\<open>'pi_targ'\<close> entries of the parameter and state bundles are.
\<close>

theorem discrete_pi_targ_list_ignored:
  assumes "action_space_Discrete q" and "\<not> is_None pi_targ_list"
  shows "(\<forall>e. init q pi_targ_list q_targ_list loss_function value_transform = Inl e \<longleftrightarrow>
              init q PyNone q_targ_list loss_function value_transform = Inl e) \<and>
         (\<forall>self warnings. init q pi_targ_list q_targ_list loss_function value_transform
               = Inr (self, warnings) \<longrightarrow>
            warnings = [''pi_targ_list is ignored, because action space is discrete''] \<and>
            (\<exists>self0. init q PyNone q_targ_list loss_function value_transform = Inr (self0, []) \<and>
               (\<forall>split target_params target_state rng transition_batch pi_params pi_state.
                  target_func split self target_params target_state rng transition_batch =
                  target_func split self0 (target_params\<lparr>bundle_pi_targ := pi_params\<rparr>)
                    (target_state\<lparr>bundle_pi_targ := pi_state\<rparr>) rng transition_batch)))"
proof (intro conjI allI impI)
  fix e
  show "init q pi_targ_list q_targ_list loss_function value_transform = Inl e \<longleftrightarrow>
        init q PyNone q_targ_list loss_function value_transform = Inl e"
    using assms
    by (auto simp: init_def check_input_lists_def check_pi_targ_list_def Let_def
          split: sum.splits if_splits)
next
  fix self warnings
  assume ok: "init q pi_targ_list q_targ_list loss_function value_transform = Inr (self, warnings)"
  then show "warnings = [''pi_targ_list is ignored, because action space is discrete'']"
    using assms
    by (auto simp: init_def check_input_lists_def check_pi_targ_list_def Let_def
          split: sum.splits if_splits)
  from ok obtain qs where qs: "py_iter q_targ_list = Inr qs"
    and self: "self = \<lparr>self_q = q, self_q_targ_list = the_Qs qs,
                           self_pi_targ_list = pi_targ_list,
                           self_loss_function = loss_function,
                           self_value_transform = value_transform\<rparr>"
    and chk: "check_q_targ_list q_targ_list = Inr ()" and len: "\<not> length qs < 2"
    using assms
    by (auto simp: init_def check_input_lists_def check_pi_targ_list_def Let_def
          split: sum.splits if_splits)
  let ?self0 = "self\<lparr>self_pi_targ_list := PyList []\<rparr>"
  have i0: "init q PyNone q_targ_list loss_function value_transform = Inr (?self0, [])"
    using assms(1) qs chk len
    by (simp add: init_def check_input_lists_def check_pi_targ_list_def Let_def self)
  have d: "action_space_Discrete (self_q self)" using assms(1) self by simp
  have "target_func split self target_params target_state rng transition_batch =
        target_func split ?self0 (target_params\<lparr>bundle_pi_targ := pi_params\<rparr>)
          (target_state\<lparr>bundle_pi_targ := pi_state\<rparr>) rng transition_batch"
    for split target_params target_state rng transition_batch pi_params pi_state
    unfolding target_func_def
    using collect_discrete_ignores_pi [OF d, of split target_params target_state rng
        "batch_S_next transition_batch" "PyList []" pi_params pi_state]
    by (simp add: Let_def split: sum.splits)
  with i0 show "\<exists>self0. init q PyNone q_targ_list loss_function value_transform = Inr (self0, []) \<and>
               (\<forall>split target_params target_state rng transition_batch pi_params pi_state.
                  target_func split self target_params target_state rng transition_batch =
                  target_func split self0 (target_params\<lparr>bundle_pi_targ := pi_params\<rparr>)
                    (target_state\<lparr>bundle_pi_targ := pi_state\<rparr>) rng transition_batch)"
    by blast
qed

theorem discrete_pi_targ_list_ignored_witness:
  "action_space_Discrete (table_q True [1, 2]) \<and> \<not> is_None (PyOther :: ex_obj pyarg) \<and>
   (\<exists>self. init (table_q True [1, 2]) (PyOther :: ex_obj pyarg)
       (PyList [IsQ (table_q True [1, 2]), IsQ (table_q True [3, 0])])
       half_squares identity_transform
     = Inr (self, [''pi_targ_list is ignored, because action space is discrete'']) \<and>
     (\<exists>self0. init (table_q True [1, 2]) (PyNone :: ex_obj pyarg)
         (PyList [IsQ (table_q True [1, 2]), IsQ (table_q True [3, 0])])
         half_squares identity_transform = Inr (self0, []) \<and>
       (\<forall>split target_params target_state rng transition_batch.
          target_func split self target_params target_state rng transition_batch =
          target_func split self0 target_params target_state rng transition_batch)))"
proof -
  let ?q = "table_q True [1, 2]"
  let ?qs = "PyList [IsQ ?q, IsQ (table_q True [3, 0])] :: ex_obj pyarg"
  have d: "action_space_Discrete ?q" by (simp add: table_q_def)
  have n: "\<not> is_None (PyOther :: ex_obj pyarg)" by simp
  obtain self where self:
    "init ?q (PyOther :: ex_obj pyarg) ?qs half_squares identity_transform
       = Inr (self, [''pi_targ_list is ignored, because action space is discrete''])"
    by (simp add: init_defs d)
  from discrete_pi_targ_list_ignored [OF d n, of ?qs half_squares identity_transform] self
  obtain self0 where self0:
    "init ?q PyNone ?qs half_squares identity_transform = Inr (self0, [])"
    and eq: "\<And>split target_params target_state rng transition_batch pi_params pi_state.
        target_func split self target_params target_state rng transition_batch =
        target_func split self0 (target_params\<lparr>bundle_pi_targ := pi_params\<rparr>)
          (target_state\<lparr>bundle_pi_targ := pi_state\<rparr>) rng transition_batch"
    by blast
  have t: "\<forall>split target_params target_state rng transition_batch.
        target_func split self target_params target_state rng transition_batch =
        target_func split self0 target_params target_state rng transition_batch"
  proof (intro allI)
    fix split target_params target_state rng transition_batch
    show "target_func split self target_params target_state rng transition_batch =
          target_func split self0 target_params target_state rng transition_batch"
      using eq [of split target_params target_state rng transition_batch
          "bundle_pi_targ target_params" "bundle_pi_targ target_state"]
      by simp
  qed
  with d n self self0 show ?thesis by blast
qed

subsection \<open>The loops in closed form\<close>

lemma nth_rngs_add: "nth_rngs split (a + b) k = nth_rngs split b (nth_rngs split a k)"
  by (induction a arbitrary: k) simp_all

lemma nth_key_add: "nth_key split k (a + b) = nth_key split (nth_rngs split a k) b"
  by (simp add: nth_key_def nth_rngs_add)

lemma nth_key_Suc: "nth_key split k (Suc b) = nth_key split (fst (split k)) b"
  by (simp add: nth_key_def)

lemma evaluate_on_q_closed:
  "evaluate_on_q split qs S A k acc =
     (nth_rngs split (length qs) k,
      acc @ map (\<lambda>j. Q_sa (qs ! j) (nth_key split k j) S A) [0..<length qs])"
proof (induction qs arbitrary: k acc)
  case Nil
  show ?case by simp
next
  case (Cons x qs)
  obtain q p st where x: "x = (q, p, st)" by (cases x) auto
  have "evaluate_on_q split (x # qs) S A k acc =
        evaluate_on_q split qs S A (fst (split k)) (acc @ [Q_sa x (nth_key split k 0) S A])"
    by (simp add: x Q_sa_def nth_key_def split: prod.splits)
  also have "\<dots> = (nth_rngs split (length qs) (fst (split k)),
      (acc @ [Q_sa x (nth_key split k 0) S A]) @
      map (\<lambda>j. Q_sa (qs ! j) (nth_key split (fst (split k)) j) S A) [0..<length qs])"
    by (rule Cons.IH)
  also have "\<dots> = (nth_rngs split (length (x # qs)) k,
      acc @ map (\<lambda>j. Q_sa ((x # qs) ! j) (nth_key split k j) S A) [0..<length (x # qs)])"
    by (simp add: map_upt_Suc nth_key_Suc del: upt_Suc)
  finally show ?case .
qed


lemma uniform_argmax_eq:
  assumes "row \<noteq> []"
  shows "map (\<lambda>x. x / sum_list (map (\<lambda>x. if x = row_max row then 1 else 0) row))
           (map (\<lambda>x. if x = row_max row then 1 else 0) row) = uniform_argmax row"
proof (rule nth_equalityI)
  show "length (map (\<lambda>x. x / sum_list (map (\<lambda>x. if x = row_max row then 1 else 0) row))
           (map (\<lambda>x. if x = row_max row then 1 else 0) row)) = length (uniform_argmax row)"
    by (simp add: uniform_argmax_def)
next
  fix a assume "a < length (map (\<lambda>x. x / sum_list (map (\<lambda>x. if x = row_max row then 1 else 0) row))
           (map (\<lambda>x. if x = row_max row then 1 else (0::real)) row))"
  then have a: "a < length row" by simp
  from greedy_row(3) [OF assms] a
  show "map (\<lambda>x. x / sum_list (map (\<lambda>x. if x = row_max row then 1 else 0) row))
           (map (\<lambda>x. if x = row_max row then 1 else 0) row) ! a = uniform_argmax row ! a"
    by (simp add: uniform_argmax_def)
qed

lemma uniform_argmax_composed:
  assumes "row \<noteq> []"
  shows "map (\<lambda>x. (if x = row_max row then 1 else 0) /
                  sum_list (map (\<lambda>x. if x = row_max row then 1 else 0) row)) row
         = uniform_argmax row"
  using uniform_argmax_eq [OF assms] by (simp add: comp_def)

lemma greedy_A_next_eq:
  "greedy_A_next Q = (if [] \<in> set Q then Inl ArrayError else Inr (map uniform_argmax Q))"
  by (auto simp: greedy_A_next_def Let_def comp_def intro!: uniform_argmax_composed)


lemma all_pairs_Nil: "all_pairs split [] qs k S = []"
  by (simp add: all_pairs_def)

lemma all_pairs_Cons:
  "all_pairs split (x # sels) qs k S =
     map (\<lambda>j. Q_sa (qs ! j) (nth_key split (fst (split k)) j) S
                 (x (nth_key split k 0) S)) [0..<length qs]
     @ all_pairs split sels qs (nth_rngs split (length qs + 1) k) S"
proof -
  have k: "nth_key split k (Suc i * (length qs + 1) + y)
         = nth_key split (nth_rngs split (length qs + 1) k) (i * (length qs + 1) + y)" for i y
    using nth_key_add [of split k "length qs + 1" "i * (length qs + 1) + y"]
    by (simp add: algebra_simps)
  show ?thesis
    unfolding all_pairs_def pair_value_def length_Cons map_upt_Suc concat.simps list.map
    using k [of _ 0] k [of _ "1 + _"]
    by (simp add: nth_key_Suc add.assoc del: upt_Suc nth_rngs.simps)
qed


lemma all_less_Suc: "(\<forall>i<Suc n. P i) \<longleftrightarrow> P 0 \<and> (\<forall>i<n. P (Suc i))"
  by (metis less_Suc_eq_0_disj)

lemma discrete_loop_step:
  "discrete_loop split (x # rest) qs S k acc =
     (if [] \<in> set (Q_s x (nth_key split k 0) S) then Inl ArrayError
      else discrete_loop split rest qs S (nth_rngs split (length qs + 1) k)
             (acc @ map (\<lambda>j. Q_sa (qs ! j) (nth_key split (fst (split k)) j) S
                 (discrete_A_next x (nth_key split k 0) S)) [0..<length qs]))"
  by (cases x)
     (simp add: greedy_A_next_eq evaluate_on_q_closed Q_s_def discrete_A_next_def nth_key_def
        split: prod.splits)

lemma discrete_loop_closed:
  "discrete_loop split rest qs S k acc =
     (if \<forall>i<length rest. [] \<notin> set (Q_s (rest ! i) (nth_key split k (i * (length qs + 1))) S)
      then Inr (nth_rngs split (length rest * (length qs + 1)) k,
                acc @ all_pairs split (map discrete_A_next rest) qs k S)
      else Inl ArrayError)"
proof (induction rest arbitrary: k acc)
  case Nil
  show ?case by (simp add: all_pairs_Nil)
next
  case (Cons x rest)
  have k: "nth_key split k (Suc i * (length qs + 1))
         = nth_key split (nth_rngs split (length qs + 1) k) (i * (length qs + 1))" for i
    using nth_key_add [of split k "length qs + 1" "i * (length qs + 1)"]
    by (simp add: algebra_simps)
  have r: "nth_rngs split (length (x # rest) * (length qs + 1)) k
         = nth_rngs split (length rest * (length qs + 1)) (nth_rngs split (length qs + 1) k)"
    using nth_rngs_add [of split "length qs + 1" "length rest * (length qs + 1)" k]
    by (simp add: algebra_simps)
  show ?case
    unfolding discrete_loop_step Cons.IH all_pairs_Cons list.map length_Cons all_less_Suc
    using k r by (simp add: algebra_simps del: nth_rngs.simps)
qed

lemma continuous_loop_closed:
  "continuous_loop split (map (\<lambda>(pol, ps). (IsPolicy pol, ps)) pis) qs S k acc =
     Inr (nth_rngs split (length pis * (length qs + 1)) k,
          acc @ all_pairs split (map policy_A_next pis) qs k S)"
proof (induction pis arbitrary: k acc)
  case Nil
  show ?case by (simp add: all_pairs_Nil)
next
  case (Cons x pis)
  obtain pol p st where x: "x = (pol, p, st)" by (cases x) auto
  have r: "nth_rngs split (length (x # pis) * (length qs + 1)) k
         = nth_rngs split (length pis * (length qs + 1)) (nth_rngs split (length qs + 1) k)"
    using nth_rngs_add [of split "length qs + 1" "length pis * (length qs + 1)" k]
    by (simp add: algebra_simps)
  have "continuous_loop split (map (\<lambda>(pol, ps). (IsPolicy pol, ps)) (x # pis)) qs S k acc =
        continuous_loop split (map (\<lambda>(pol, ps). (IsPolicy pol, ps)) pis) qs S
          (nth_rngs split (length qs + 1) k)
          (acc @ map (\<lambda>j. Q_sa (qs ! j) (nth_key split (fst (split k)) j) S
                 (policy_A_next x (nth_key split k 0) S)) [0..<length qs])"
    by (simp add: x evaluate_on_q_closed policy_A_next_def nth_key_def split: prod.splits)
  then show ?case
    unfolding Cons.IH all_pairs_Cons list.map using r
    by (simp add: algebra_simps del: nth_rngs.simps)
qed


subsection \<open>Stacking, the minimum and the bootstrapped sum\<close>

lemma stack_last_eq:
  "stack_last cols =
     (if cols \<noteq> [] \<and> (\<forall>c \<in> set cols. length c = length (hd cols))
      then Inr (map (\<lambda>r. map (\<lambda>v. v ! r) cols) [0..<length (hd cols)])
      else Inl ArrayError)"
  by (cases cols) (auto simp: stack_last_def)

lemma stack_last_Inr:
  assumes "cols \<noteq> []" and "\<forall>c \<in> set cols. length c = B"
  shows "stack_last cols = Inr (map (\<lambda>r. map (\<lambda>v. v ! r) cols) [0..<B])"
proof -
  have "hd cols \<in> set cols" using assms(1) by simp
  then have "length (hd cols) = B" using assms(2) by blast
  then show ?thesis using assms by (simp add: stack_last_eq)
qed

lemma min_last_columns:
  assumes "cols \<noteq> []"
  shows "min_last (map (\<lambda>r. map (\<lambda>v. v ! r) cols) [0..<L])
         = map (\<lambda>r. Min ((\<lambda>v. v ! r) ` set cols)) [0..<L]"
  using assms by (simp add: min_last_def row_min_eq_Min comp_def)

lemma stack_min:
  assumes "cols \<noteq> []" and "\<forall>c \<in> set cols. length c = B"
  shows "stack_last cols = Inr (map (\<lambda>r. map (\<lambda>v. v ! r) cols) [0..<B])"
    and "min_last (map (\<lambda>r. map (\<lambda>v. v ! r) cols) [0..<B])
         = map (\<lambda>r. Min ((\<lambda>v. v ! r) ` set cols)) [0..<B]"
proof -
  have "hd cols \<in> set cols" using assms(1) by simp
  then have "length (hd cols) = B" using assms(2) by blast
  then show "stack_last cols = Inr (map (\<lambda>r. map (\<lambda>v. v ! r) cols) [0..<B])"
    using assms by (simp add: stack_last_eq)
  show "min_last (map (\<lambda>r. map (\<lambda>v. v ! r) cols) [0..<B])
         = map (\<lambda>r. Min ((\<lambda>v. v ! r) ` set cols)) [0..<B]"
    using assms(1) by (rule min_last_columns)
qed

lemma map2_nth:
  "length xs = B \<Longrightarrow> length ys = B \<Longrightarrow> map2 f xs ys = map (\<lambda>r. f (xs ! r) (ys ! r)) [0..<B]"
  by (auto intro!: nth_equalityI)

lemma bootstrap_identity:
  assumes "cols \<noteq> []" and "\<forall>c \<in> set cols. length c = length Rn" and "length In = length Rn"
  shows "bootstrap identity_transform Rn In cols =
           Inr (map (\<lambda>r. Rn ! r + In ! r * Min ((\<lambda>v. v ! r) ` set cols)) [0..<length Rn])"
  using assms
  by (simp add: bootstrap_def stack_min [OF assms(1,2)] identity_transform_def broadcast2_def
        map2_nth [of _ "length Rn"])

lemma set_all_pairs:
  "set (all_pairs split sels qs rng S) =
     (\<lambda>(i, j). pair_value split sels qs rng S i j) ` ({..<length sels} \<times> {..<length qs})"
proof -
  have "set (all_pairs split sels qs rng S) =
        (\<Union>i \<in> {..<length sels}. (\<lambda>j. pair_value split sels qs rng S i j) ` {..<length qs})"
    by (simp add: all_pairs_def atLeast0LessThan)
  also have "\<dots> = (\<lambda>(i, j). pair_value split sels qs rng S i j) `
                      ({..<length sels} \<times> {..<length qs})"
    by (auto simp: image_iff)
  finally show ?thesis .
qed

lemma all_pairs_empty_iff:
  "all_pairs split sels qs rng S = [] \<longleftrightarrow> sels = [] \<or> qs = []"
  by (auto simp: all_pairs_def)


lemma the_Policies_id: "list_all isinstance_Policy xs \<Longrightarrow> map IsPolicy (the_Policies xs) = xs"
proof (induction xs)
  case Nil
  show ?case by simp
next
  case (Cons x xs)
  then show ?case by (cases x) simp_all
qed

lemma zip_IsPolicy:
  "zip (map IsPolicy pols) ps = map (\<lambda>(pol, ps). (IsPolicy pol, ps)) (zip pols ps)"
  by (simp add: zip_map1)

lemma collect_closed:
  assumes "well_shaped split self tp ts rng batch"
  shows "collect_Q_sa_next_list split self tp ts rng (batch_S_next batch) =
           Inr (all_pairs split (selectors self tp ts) (evaluators self tp ts) rng
                  (batch_S_next batch))"
proof (cases "action_space_Discrete (self_q self)")
  case True
  with assms show ?thesis
    by (simp add: collect_Q_sa_next_list_def well_shaped_def Let_def discrete_loop_closed
          selectors_def evaluators_def)
next
  case False
  with assms obtain pi_list where it: "py_iter (self_pi_targ_list self) = Inr pi_list"
    and pol: "list_all isinstance_Policy pi_list"
    by (auto simp: well_shaped_def Let_def split: sum.splits)
  have z: "zip pi_list (zip (bundle_pi_targ tp) (bundle_pi_targ ts)) =
        map (\<lambda>(pol, ps). (IsPolicy pol, ps))
          (zip (the_Policies pi_list) (zip (bundle_pi_targ tp) (bundle_pi_targ ts)))"
    by (subst the_Policies_id [OF pol, symmetric]) (rule zip_IsPolicy)
  show ?thesis
    using False it
    by (simp add: collect_Q_sa_next_list_def Let_def z continuous_loop_closed
          selectors_def evaluators_def)
qed

lemma well_shaped_pairs:
  assumes "well_shaped split self tp ts rng batch"
  defines "cols \<equiv> all_pairs split (selectors self tp ts) (evaluators self tp ts) rng
                  (batch_S_next batch)"
  shows "cols \<noteq> []" and "\<forall>c \<in> set cols. length c = length (batch_Rn batch)"
    and "length (batch_In batch) = length (batch_Rn batch)"
  using assms
  by (auto simp: well_shaped_def Let_def all_pairs_empty_iff set_all_pairs)

subsection \<open>The target\<close>

lemma ex_discrete_well_shaped:
  "well_shaped ex_split ex_discrete ex_bundle ex_bundle 0 ex_batch"
  by code_simp

lemma ex_continuous_well_shaped:
  "well_shaped ex_split ex_continuous ex_bundle ex_bundle 0 ex_batch"
  by code_simp

text \<open>
  C1. With the identity value transform, on every well-shaped input (a discrete or
  another action space) \<^verbatim>\<open>target_func\<close> returns, for every transition \<open>r\<close>, the reward
  \<open>Rn ! r\<close> plus the discount \<open>In ! r\<close> times the minimum, over all pairs of a selector
  \<open>i\<close> and an evaluator \<open>j\<close>, of the value in row \<open>r\<close> that evaluator \<open>j\<close> gives to the
  next action chosen by selector \<open>i\<close>.
\<close>

theorem target_func_identity_transform:
  assumes "well_shaped split self target_params target_state rng transition_batch"
    and "self_value_transform self = identity_transform"
  shows "target_func split self target_params target_state rng transition_batch =
     Inr (map (\<lambda>r. batch_Rn transition_batch ! r + batch_In transition_batch ! r *
                 Min ((\<lambda>(i, j). pair_value split (selectors self target_params target_state)
                         (evaluators self target_params target_state) rng
                         (batch_S_next transition_batch) i j ! r) `
                      ({..<length (selectors self target_params target_state)} \<times>
                       {..<length (evaluators self target_params target_state)})))
            [0..<length (batch_Rn transition_batch)])"
proof -
  note w = well_shaped_pairs [OF assms(1)]
  have img: "(\<lambda>v. v ! r) ` set (all_pairs split (selectors self target_params target_state)
                  (evaluators self target_params target_state) rng
                  (batch_S_next transition_batch)) =
        (\<lambda>(i, j). pair_value split (selectors self target_params target_state)
                         (evaluators self target_params target_state) rng
                         (batch_S_next transition_batch) i j ! r) `
                      ({..<length (selectors self target_params target_state)} \<times>
                       {..<length (evaluators self target_params target_state)})" for r
    unfolding set_all_pairs image_image by (simp add: case_prod_unfold)
  show ?thesis
    unfolding target_func_def Let_def collect_closed [OF assms(1)] assms(2)
    by (simp add: bootstrap_identity [OF w] img)
qed

theorem target_func_identity_transform_witness:
  "well_shaped ex_split ex_discrete ex_bundle ex_bundle 0 ex_batch \<and>
   self_value_transform ex_discrete = identity_transform \<and>
   target_func ex_split ex_discrete ex_bundle ex_bundle 0 ex_batch = Inr [3 / 2, 3] \<and>
   map (\<lambda>r. batch_Rn ex_batch ! r + batch_In ex_batch ! r *
           Min ((\<lambda>(i, j). pair_value ex_split (selectors ex_discrete ex_bundle ex_bundle)
                   (evaluators ex_discrete ex_bundle ex_bundle) 0 (batch_S_next ex_batch) i j ! r) `
                ({..<length (selectors ex_discrete ex_bundle ex_bundle)} \<times>
                 {..<length (evaluators ex_discrete ex_bundle ex_bundle)})))
     [0..<length (batch_Rn ex_batch)] = [3 / 2, 3] \<and>
   well_shaped ex_split ex_continuous ex_bundle ex_bundle 0 ex_batch \<and>
   self_value_transform ex_continuous = identity_transform \<and>
   target_func ex_split ex_continuous ex_bundle ex_bundle 0 ex_batch = Inr [- (1 / 2), 3] \<and>
   map (\<lambda>r. batch_Rn ex_batch ! r + batch_In ex_batch ! r *
           Min ((\<lambda>(i, j). pair_value ex_split (selectors ex_continuous ex_bundle ex_bundle)
                   (evaluators ex_continuous ex_bundle ex_bundle) 0 (batch_S_next ex_batch) i j ! r) `
                ({..<length (selectors ex_continuous ex_bundle ex_bundle)} \<times>
                 {..<length (evaluators ex_continuous ex_bundle ex_bundle)})))
     [0..<length (batch_Rn ex_batch)] = [- (1 / 2), 3]"
proof -
  have vd: "self_value_transform ex_discrete = identity_transform"
    by (simp add: ex_discrete_def)
  have vc: "self_value_transform ex_continuous = identity_transform"
    by (simp add: ex_continuous_def)
  have td: "target_func ex_split ex_discrete ex_bundle ex_bundle 0 ex_batch = Inr [3 / 2, 3]"
    by code_simp
  have tc: "target_func ex_split ex_continuous ex_bundle ex_bundle 0 ex_batch = Inr [- (1 / 2), 3]"
    by code_simp
  note d = target_func_identity_transform [OF ex_discrete_well_shaped vd, unfolded td]
  note c = target_func_identity_transform [OF ex_continuous_well_shaped vc, unfolded tc]
  from d c ex_discrete_well_shaped ex_continuous_well_shaped vd vc td tc
  show ?thesis by simp
qed

subsection \<open>The end-to-end scenario\<close>

lemma uniform_argmax_1_2: "uniform_argmax [1, 2] = [0, 1]"
  by (simp add: uniform_argmax_def)

text \<open>
  C9. Four transitions over two actions, two target Q-functions whose per-action values
  are \<open>[1, 2]\<close> in every row and whose state-action value is the contraction of the
  action weights with these values, rewards 0, discounts 0.99 and the identity value
  transform: \<^verbatim>\<open>target_func\<close> returns \<open>[1.98, 1.98, 1.98, 1.98]\<close>.
\<close>

theorem scenario_target:
  assumes disc: "action_space_Discrete (self_q self)"
    and qs: "self_q_targ_list self = [q1, q2]"
    and ps: "bundle_q_targ target_params = [p1, p2]"
    and sts: "bundle_q_targ target_state = [s1, s2]"
    and vt: "self_value_transform self = identity_transform"
    and Rn: "batch_Rn transition_batch = [0, 0, 0, 0]"
    and In: "batch_In transition_batch = [0.99, 0.99, 0.99, 0.99]"
    and per_action: "\<And>key.
        fst (function_type2 q1 p1 s1 key (batch_S_next transition_batch) False)
          = replicate 4 [1, 2] \<and>
        fst (function_type2 q2 p2 s2 key (batch_S_next transition_batch) False)
          = replicate 4 [1, 2]"
    and state_action: "\<And>key W.
        fst (function_type1 q1 p1 s1 key (batch_S_next transition_batch) (Weights W) False)
          = map (\<lambda>w. sum_list (map2 (*) w [1, 2])) W \<and>
        fst (function_type1 q2 p2 s2 key (batch_S_next transition_batch) (Weights W) False)
          = map (\<lambda>w. sum_list (map2 (*) w [1, 2])) W"
  shows "target_func split self target_params target_state rng transition_batch
           = Inr [1.98, 1.98, 1.98, 1.98]"
proof -
  let ?S = "batch_S_next transition_batch"
  let ?qs = "[(q1, p1, s1), (q2, p2, s2)]"
  have ev: "evaluators self target_params target_state = ?qs"
    by (simp add: evaluators_def qs ps sts)
  let ?sels = "[discrete_A_next (q1, p1, s1), discrete_A_next (q2, p2, s2)]"
  have sel: "selectors self target_params target_state = ?sels"
    by (simp add: selectors_def disc ev)
  have Qs: "Q_s x key ?S = replicate 4 [1, 2]" if "x \<in> set ?qs" for x key
    using that per_action [of key] by (auto simp: Q_s_def)
  have A: "discrete_A_next x key ?S = Weights (replicate 4 [0, 1])" if "x \<in> set ?qs" for x key
    using Qs [OF that] by (simp add: discrete_A_next_def uniform_argmax_1_2)
  have Qsa: "Q_sa x key ?S (Weights (replicate 4 [0, 1])) = replicate 4 2"
    if "x \<in> set ?qs" for x key
    using that state_action [of key "replicate 4 [0, 1]"] by (auto simp: Q_sa_def)
  have nth: "?qs ! i \<in> set ?qs" if "i < Suc (Suc 0)" for i
    using that by (auto simp: less_Suc_eq)
  have Qs': "Q_s (?qs ! i) key ?S = replicate 4 [1, 2]" if "i < Suc (Suc 0)" for i key
    using Qs [OF nth [OF that]] .
  have pv: "pair_value split ?sels ?qs rng ?S i j = replicate 4 2"
    if "i < Suc (Suc 0)" "j < Suc (Suc 0)" for i j
  proof -
    have "?sels ! i = discrete_A_next (?qs ! i)"
      using that by (auto simp: less_Suc_eq)
    then show ?thesis
      unfolding pair_value_def using A [OF nth [OF that(1)]] Qsa [OF nth [OF that(2)]] by simp
  qed
  have ws: "well_shaped split self target_params target_state rng transition_batch"
    unfolding well_shaped_def Let_def ev sel
    by (simp add: disc Rn In pv Qs')
  have cols: "all_pairs split ?sels ?qs rng ?S = replicate 4 (replicate 4 2)"
    unfolding all_pairs_def
    by (simp add: pv upt_rec [of 0] upt_rec [of "Suc 0"]) (simp add: numeral_eq_Suc)
  show ?thesis
    unfolding target_func_def Let_def collect_closed [OF ws] ev sel cols vt
    by (simp add: bootstrap_def stack_last_def min_last_def identity_transform_def
          broadcast2_def Rn In numeral_eq_Suc)
qed


theorem scenario_target_witness:
  "action_space_Discrete (self_q scenario_self) \<and>
   self_q_targ_list scenario_self = [table_q True [1, 2], table_q True [1, 2]] \<and>
   batch_Rn scenario_batch = [0, 0, 0, 0] \<and>
   batch_In scenario_batch = [0.99, 0.99, 0.99, 0.99] \<and>
   target_func ex_split scenario_self ex_bundle ex_bundle 0 scenario_batch
     = Inr [1.98, 1.98, 1.98, 1.98]"
proof -
  have d: "action_space_Discrete (self_q scenario_self)"
    and q: "self_q_targ_list scenario_self = [table_q True [1, 2], table_q True [1, 2]]"
    and v: "self_value_transform scenario_self = identity_transform"
    by (simp_all add: scenario_self_def table_q_def)
  have b: "bundle_q_targ ex_bundle = [(), ()]" by (simp add: ex_bundle_def)
  have Rn: "batch_Rn scenario_batch = [0, 0, 0, 0]"
    and In: "batch_In scenario_batch = [0.99, 0.99, 0.99, 0.99]"
    and S: "batch_S_next scenario_batch = 4"
    by (simp_all add: scenario_batch_def)
  have "target_func ex_split scenario_self ex_bundle ex_bundle 0 scenario_batch
     = Inr [1.98, 1.98, 1.98, 1.98]"
    by (rule scenario_target [OF d q b b v Rn In]) (simp_all add: S table_q_def)
  with d q Rn In show ?thesis by blast
qed

subsection \<open>Key-independent Q-functions\<close>

lemma key_independent_Q_sa: "key_independent x S \<Longrightarrow> Q_sa x key S A = Q_sa x key0 S A"
  by (simp add: key_independent_def)

lemma key_independent_Q_s: "key_independent x S \<Longrightarrow> Q_s x key S = Q_s x key0 S"
  by (simp add: key_independent_def)

lemma key_independent_A_next:
  "key_independent x S \<Longrightarrow> discrete_A_next x key S = discrete_A_next x key0 S"
  by (simp add: discrete_A_next_def key_independent_Q_s [of x S key key0])

lemma all_pairs_key_independent:
  assumes "\<forall>x \<in> set qs. key_independent x S"
    and "\<And>i. i < length sels \<Longrightarrow> (sels ! i) (nth_key split rng (i * (length qs + 1))) S = An ! i"
    and "length An = length sels"
  shows "all_pairs split sels qs rng S = concat (map (\<lambda>A. map (\<lambda>y. Q_sa y key0 S A) qs) An)"
proof -
  have inner: "map (\<lambda>j. pair_value split sels qs rng S i j) [0..<length qs]
             = map (\<lambda>y. Q_sa y key0 S (An ! i)) qs" if "i < length sels" for i
  proof -
    have "map (\<lambda>j. pair_value split sels qs rng S i j) [0..<length qs]
        = map (\<lambda>j. Q_sa (qs ! j) key0 S (An ! i)) [0..<length qs]"
    proof (rule map_cong [OF refl])
      fix j assume "j \<in> set [0..<length qs]"
      then have "key_independent (qs ! j) S" using assms(1) by simp
      then show "pair_value split sels qs rng S i j = Q_sa (qs ! j) key0 S (An ! i)"
        unfolding pair_value_def assms(2) [OF that] by (rule key_independent_Q_sa)
    qed
    also have "\<dots> = map (\<lambda>y. Q_sa y key0 S (An ! i)) qs"
      by (rule nth_equalityI) simp_all
    finally show ?thesis .
  qed
  have "map (\<lambda>i. map (\<lambda>j. pair_value split sels qs rng S i j) [0..<length qs])
          [0..<length sels]
      = map (\<lambda>i. map (\<lambda>y. Q_sa y key0 S (An ! i)) qs) [0..<length sels]"
    by (rule map_cong [OF refl]) (simp add: inner)
  then have "all_pairs split sels qs rng S
      = concat (map (\<lambda>i. map (\<lambda>y. Q_sa y key0 S (An ! i)) qs) [0..<length sels])"
    unfolding all_pairs_def by (rule arg_cong [of _ _ concat])
  also have "\<dots> = concat (map (\<lambda>A. map (\<lambda>y. Q_sa y key0 S A) qs) (map (\<lambda>i. An ! i) [0..<length An]))"
    by (simp only: assms(3) map_map comp_def)
  also have "map (\<lambda>i. An ! i) [0..<length An] = An" by (rule map_nth)
  finally show ?thesis .
qed


lemma mset_concat_map_perm:
  assumes "mset xs' = mset xs"
  shows "mset (concat (map g xs')) = mset (concat (map g xs))"
proof -
  have "mset (concat (map g ys)) = sum_mset (image_mset (\<lambda>x. mset (g x)) (mset ys))" for ys
    by (simp add: mset_concat comp_def flip: sum_mset_sum_list)
  then show ?thesis by (simp add: assms)
qed

lemma mset_pairs_perm:
  assumes "mset qs' = mset qs" and "mset An' = mset An"
  shows "mset (concat (map (\<lambda>A. map (\<lambda>y. F y A) qs') An'))
       = mset (concat (map (\<lambda>A. map (\<lambda>y. F y A) qs) An))"
proof -
  have "mset (concat (map (\<lambda>A. map (\<lambda>y. F y A) qs') An'))
      = mset (concat (map (\<lambda>A. map (\<lambda>y. F y A) qs') An))"
    by (rule mset_concat_map_perm) (rule assms(2))
  also have "\<dots> = mset (concat (map (\<lambda>A. map (\<lambda>y. F y A) qs) An))"
    by (simp add: mset_concat comp_def assms(1))
  finally show ?thesis .
qed

lemma set_eq_Nil_iff: "set xs = set ys \<Longrightarrow> xs = [] \<longleftrightarrow> ys = []"
  by (metis set_empty)

lemma stack_last_set_cong:
  assumes "set cols' = set cols"
  shows "(case stack_last cols' of Inl e \<Rightarrow> Inl e | Inr M \<Rightarrow> Inr (min_last M))
       = (case stack_last cols of Inl e \<Rightarrow> Inl e | Inr M \<Rightarrow> Inr (min_last M))"
proof (cases "cols \<noteq> [] \<and> (\<forall>c \<in> set cols. length c = length (hd cols))")
  case True
  then have ne: "cols \<noteq> []" and len: "\<forall>c \<in> set cols. length c = length (hd cols)"
    by blast+
  have ne': "cols' \<noteq> []" using ne set_eq_Nil_iff [OF assms] by blast
  have len': "\<forall>c \<in> set cols'. length c = length (hd cols)" unfolding assms by (rule len)
  show ?thesis
    unfolding stack_min(1) [OF ne len] stack_min(1) [OF ne' len'] sum.case
      min_last_columns [OF ne] min_last_columns [OF ne'] assms ..
next
  case False
  have "\<not> (cols' \<noteq> [] \<and> (\<forall>c \<in> set cols'. length c = length (hd cols')))"
  proof
    assume a: "cols' \<noteq> [] \<and> (\<forall>c \<in> set cols'. length c = length (hd cols'))"
    then have ne: "cols \<noteq> []" using set_eq_Nil_iff [OF assms] by blast
    then have "hd cols \<in> set cols" by (rule hd_in_set)
    then have "hd cols \<in> set cols'" unfolding assms .
    with a have h: "length (hd cols) = length (hd cols')" by blast
    have "\<forall>c \<in> set cols. length c = length (hd cols)"
      unfolding h using a unfolding assms by blast
    with ne False show False by blast
  qed
  with False show ?thesis unfolding stack_last_eq by (simp only: if_False sum.case)
qed

lemma bootstrap_set_cong:
  assumes "set cols' = set cols"
  shows "bootstrap vt Rn In cols' = bootstrap vt Rn In cols"
proof -
  have b: "bootstrap vt Rn In cs =
      (case (case stack_last cs of Inl e \<Rightarrow> Inl e | Inr M \<Rightarrow> Inr (min_last M)) of
         Inl e \<Rightarrow> Inl e
       | Inr Q_sa_next \<Rightarrow>
           (case broadcast2 (*) In (snd vt Q_sa_next) of
              Inl e \<Rightarrow> Inl e
            | Inr discounted \<Rightarrow>
                (case broadcast2 (+) Rn discounted of
                   Inl e \<Rightarrow> Inl e
                 | Inr G \<Rightarrow> Inr (fst vt G))))" for cs
    by (simp add: bootstrap_def Let_def case_prod_beta split: sum.splits)
  show ?thesis unfolding b stack_last_set_cong [OF assms] ..
qed

lemma evaluate_on_q_key_independent:
  assumes "\<forall>x \<in> set qs. key_independent x S"
  shows "evaluate_on_q split qs S A k acc =
           (nth_rngs split (length qs) k, acc @ map (\<lambda>y. Q_sa y key0 S A) qs)"
proof -
  have "map (\<lambda>j. Q_sa (qs ! j) (nth_key split k j) S A) [0..<length qs]
      = map (\<lambda>j. Q_sa (qs ! j) key0 S A) [0..<length qs]"
  proof (rule map_cong [OF refl])
    fix j assume "j \<in> set [0..<length qs]"
    then have "key_independent (qs ! j) S" using assms by simp
    then show "Q_sa (qs ! j) (nth_key split k j) S A = Q_sa (qs ! j) key0 S A"
      by (rule key_independent_Q_sa)
  qed
  also have "\<dots> = map (\<lambda>y. Q_sa y key0 S A) qs"
    by (rule nth_equalityI) simp_all
  finally show ?thesis by (simp add: evaluate_on_q_closed)
qed

lemma discrete_loop_key_independent:
  assumes "\<forall>x \<in> set qs. key_independent x S"
  shows "discrete_loop split qs qs S rng [] =
     (if \<forall>x \<in> set qs. [] \<notin> set (Q_s x key0 S)
      then Inr (nth_rngs split (length qs * (length qs + 1)) rng,
                concat (map (\<lambda>A. map (\<lambda>y. Q_sa y key0 S A) qs)
                  (map (\<lambda>x. discrete_A_next x key0 S) qs)))
      else Inl ArrayError)"
proof -
  have c: "(\<forall>i<length qs. [] \<notin> set (Q_s (qs ! i) (nth_key split rng (i * (length qs + 1))) S))
       \<longleftrightarrow> (\<forall>x \<in> set qs. [] \<notin> set (Q_s x key0 S))"
    (is "?L \<longleftrightarrow> ?R")
  proof
    assume l: ?L
    show ?R
    proof
      fix x assume "x \<in> set qs"
      then obtain i where i: "i < length qs" "x = qs ! i" by (auto simp: in_set_conv_nth)
      with assms have "key_independent x S" by simp
      from key_independent_Q_s [OF this, of key0 "nth_key split rng (i * (length qs + 1))"] l i
      show "[] \<notin> set (Q_s x key0 S)" by simp
    qed
  next
    assume r: ?R
    show ?L
    proof (intro allI impI)
      fix i assume i: "i < length qs"
      with assms have "key_independent (qs ! i) S" by simp
      from key_independent_Q_s [OF this, of "nth_key split rng (i * (length qs + 1))" key0] r i
      show "[] \<notin> set (Q_s (qs ! i) (nth_key split rng (i * (length qs + 1))) S)" by simp
    qed
  qed
  have a: "all_pairs split (map discrete_A_next qs) qs rng S =
        concat (map (\<lambda>A. map (\<lambda>y. Q_sa y key0 S A) qs) (map (\<lambda>x. discrete_A_next x key0 S) qs))"
  proof (rule all_pairs_key_independent [OF assms])
    fix i assume i: "i < length (map discrete_A_next qs)"
    with assms have "key_independent (qs ! i) S" by simp
    from key_independent_A_next [OF this, of "nth_key split rng (i * (length qs + 1))" key0] i
    show "(map discrete_A_next qs ! i) (nth_key split rng (i * (length qs + 1))) S
        = map (\<lambda>x. discrete_A_next x key0 S) qs ! i"
      by simp
  qed simp
  show ?thesis
    unfolding discrete_loop_closed c a by simp
qed


lemma continuous_loop_step:
  assumes "\<forall>x \<in> set qs. key_independent x S"
  shows "continuous_loop split ((IsPolicy pol, p, st) # pis) qs S k acc =
         continuous_loop split pis qs S (nth_rngs split (length qs) (fst (split k)))
           (acc @ map (\<lambda>y. Q_sa y key0 S (policy_A_next (pol, p, st) (snd (split k)) S)) qs)"
  by (simp add: evaluate_on_q_key_independent [OF assms, of _ _ _ _ key0] policy_A_next_def
        split: prod.splits)

lemma continuous_loop_perm:
  assumes "mset qs' = mset qs" and "\<forall>x \<in> set qs. key_independent x S"
  shows "mset acc' = mset acc \<Longrightarrow>
     (case continuous_loop split pis qs S k acc of
        Inl e \<Rightarrow> continuous_loop split pis qs' S k acc' = Inl e
      | Inr (k1, cols) \<Rightarrow>
          (\<exists>cols'. continuous_loop split pis qs' S k acc' = Inr (k1, cols') \<and>
                   mset cols' = mset cols))"
proof (induction pis arbitrary: k acc acc')
  case Nil
  then show ?case by simp
next
  case (Cons x pis)
  obtain obj p st where x: "x = (obj, p, st)" by (cases x) auto
  have set: "set qs' = set qs" using assms(1) by (rule mset_eq_setD)
  have len: "length qs' = length qs" using assms(1) by (rule mset_eq_length)
  have ind': "\<forall>x \<in> set qs'. key_independent x S" unfolding set by (rule assms(2))
  show ?case
  proof (cases obj)
    case (IsPolicy pol)
    let ?F = "\<lambda>y. Q_sa y k S (policy_A_next (pol, p, st) (snd (split k)) S)"
    have m: "mset (acc' @ map ?F qs') = mset (acc @ map ?F qs)"
      using Cons.prems assms(1) by simp
    show ?thesis
      unfolding x IsPolicy continuous_loop_step [OF assms(2), of _ _ _ _ _ _ _ k]
        continuous_loop_step [OF ind', of _ _ _ _ _ _ _ k] len
      by (rule Cons.IH [OF m])
  next
    case (IsQ q)
    then show ?thesis by (simp add: x)
  next
    case OtherObj
    then show ?thesis by (simp add: x)
  qed
qed


lemma collect_perm:
  fixes self :: "('p, 'st, 'k, 's, 'a, 'c, 'd) ClippedDoubleQLearning"
    and split :: "'k split" and rng :: 'k
  assumes perm: "mset (zip qs' (zip ps' sts')) = mset (evaluators self tp ts)"
    and indep: "\<forall>x \<in> set (evaluators self tp ts). key_independent x S"
  defines "r' \<equiv> collect_Q_sa_next_list split (self\<lparr>self_q_targ_list := qs'\<rparr>)
                   (tp\<lparr>bundle_q_targ := ps'\<rparr>) (ts\<lparr>bundle_q_targ := sts'\<rparr>) rng S"
    and "r \<equiv> collect_Q_sa_next_list split self tp ts rng S"
  shows "(\<exists>e. r' = Inl e \<and> r = Inl e) \<or> (\<exists>c' c. r' = Inr c' \<and> r = Inr c \<and> set c' = set c)"
proof -
  let ?E = "evaluators self tp ts"
  let ?E' = "zip qs' (zip ps' sts')"
  have set: "set ?E' = set ?E" using perm by (rule mset_eq_setD)
  have len: "length ?E' = length ?E" using perm by (rule mset_eq_length)
  have indep': "\<forall>x \<in> set ?E'. key_independent x S" unfolding set by (rule indep)
  show ?thesis
  proof (cases "action_space_Discrete (self_q self)")
    case True
    have r: "r = (case discrete_loop split ?E ?E S rng [] of
                    Inl e \<Rightarrow> Inl e | Inr (rngs, Q_sa_next_list) \<Rightarrow> Inr Q_sa_next_list)"
      using True by (simp add: r_def collect_Q_sa_next_list_def evaluators_def Let_def)
    have r': "r' = (case discrete_loop split ?E' ?E' S rng [] of
                    Inl e \<Rightarrow> Inl e | Inr (rngs, Q_sa_next_list) \<Rightarrow> Inr Q_sa_next_list)"
      using True by (simp add: r'_def collect_Q_sa_next_list_def Let_def)
    let ?F = "\<lambda>y A. Q_sa y rng S A"
    have "mset (concat (map (\<lambda>A. map (\<lambda>y. ?F y A) ?E')
                  (map (\<lambda>x. discrete_A_next x rng S) ?E')))
        = mset (concat (map (\<lambda>A. map (\<lambda>y. ?F y A) ?E)
                  (map (\<lambda>x. discrete_A_next x rng S) ?E)))"
      by (rule mset_pairs_perm) (simp_all add: perm)
    then have "set (concat (map (\<lambda>A. map (\<lambda>y. ?F y A) ?E')
                  (map (\<lambda>x. discrete_A_next x rng S) ?E')))
        = set (concat (map (\<lambda>A. map (\<lambda>y. ?F y A) ?E)
                  (map (\<lambda>x. discrete_A_next x rng S) ?E)))"
      by (rule mset_eq_setD)
    then show ?thesis
      unfolding r r' discrete_loop_key_independent [OF indep, of split rng rng]
        discrete_loop_key_independent [OF indep', of split rng rng] set
      by simp
  next
    case False
    show ?thesis
    proof (cases "py_iter (self_pi_targ_list self)")
      case (Inl e)
      with False show ?thesis
        by (simp add: r_def r'_def collect_Q_sa_next_list_def Let_def)
    next
      case (Inr pi_list)
      let ?pis = "zip pi_list (zip (bundle_pi_targ tp) (bundle_pi_targ ts))"
      have r: "r = (case continuous_loop split ?pis ?E S rng [] of
                    Inl e \<Rightarrow> Inl e | Inr (rngs, Q_sa_next_list) \<Rightarrow> Inr Q_sa_next_list)"
        using False Inr by (simp add: r_def collect_Q_sa_next_list_def evaluators_def Let_def)
      have r': "r' = (case continuous_loop split ?pis ?E' S rng [] of
                    Inl e \<Rightarrow> Inl e | Inr (rngs, Q_sa_next_list) \<Rightarrow> Inr Q_sa_next_list)"
        using False Inr by (simp add: r'_def collect_Q_sa_next_list_def Let_def)
      from continuous_loop_perm [OF perm indep, of "[]" "[]" split ?pis rng]
      show ?thesis
        unfolding r r'
        by (cases "continuous_loop split ?pis ?E S rng []")
           (auto dest: mset_eq_setD)
    qed
  qed
qed

text \<open>
  C10. When the values of every target Q-function do not depend on the key it is
  handed, reordering \<^verbatim>\<open>q_targ_list\<close> together with the \<^verbatim>\<open>'q_targ'\<close> entries of the
  parameter and state bundles (the triples keep their multiset) leaves the result of
  \<^verbatim>\<open>target_func\<close> unchanged, errors included, in both branches.
\<close>

theorem target_func_permutation_invariant:
  fixes self :: "('p, 'st, 'k, 's, 'a, 'c, 'd) ClippedDoubleQLearning"
  assumes "mset (zip q_targ_list' (zip q_params' q_states'))
             = mset (evaluators self target_params target_state)"
    and "\<forall>x \<in> set (evaluators self target_params target_state).
           key_independent x (batch_S_next transition_batch)"
  shows "target_func split (self\<lparr>self_q_targ_list := q_targ_list'\<rparr>)
           (target_params\<lparr>bundle_q_targ := q_params'\<rparr>)
           (target_state\<lparr>bundle_q_targ := q_states'\<rparr>) rng transition_batch
       = target_func split self target_params target_state rng transition_batch"
  using collect_perm [OF assms, of split rng]
  by (auto simp: target_func_def Let_def intro: bootstrap_set_cong)


lemma bootstrap_single:
  "bootstrap vt Rn In [v] =
     (let (f, f_inv) = vt
      in case broadcast2 (*) In (f_inv v) of
           Inl e \<Rightarrow> Inl e
         | Inr discounted \<Rightarrow>
             (case broadcast2 (+) Rn discounted of
                Inl e \<Rightarrow> Inl e
              | Inr G \<Rightarrow> Inr (f G)))"
proof -
  have "map (\<lambda>r. row_min [v ! r]) [0..<length v] = v"
    by (rule nth_equalityI) simp_all
  then show ?thesis
    by (simp add: bootstrap_def stack_last_def min_last_def comp_def)
qed

lemma single_network_target_eq:
  "single_network_target vt Rn In x key key' S =
     (if [] \<in> set (Q_s x key S) then Inl ArrayError
      else bootstrap vt Rn In [Q_sa x key' S (discrete_A_next x key S)])"
  by (simp add: single_network_target_def greedy_A_next_eq bootstrap_single discrete_A_next_def)

text \<open>
  C4, amended. With a discrete action space and two target Q-functions that return the
  same values on every input, \<^verbatim>\<open>target_func\<close> returns the bootstrapped target of the one
  network, provided the values of the Q-function do not depend on the key it is handed.
\<close>

theorem identical_pair_is_single_network:
  assumes disc: "action_space_Discrete (self_q self)"
    and two: "evaluators self target_params target_state = [x1, x2]"
    and same_sa: "\<forall>key A. Q_sa x2 key (batch_S_next transition_batch) A
                        = Q_sa x1 key (batch_S_next transition_batch) A"
    and same_s: "\<forall>key. Q_s x2 key (batch_S_next transition_batch)
                     = Q_s x1 key (batch_S_next transition_batch)"
    and indep: "key_independent x1 (batch_S_next transition_batch)"
  shows "target_func split self target_params target_state rng transition_batch =
         single_network_target (self_value_transform self) (batch_Rn transition_batch)
           (batch_In transition_batch) x1 key key' (batch_S_next transition_batch)"
proof -
  let ?S = "batch_S_next transition_batch"
  have indep2: "key_independent x2 ?S"
    using indep same_sa same_s by (simp add: key_independent_def)
  have all: "\<forall>x \<in> set [x1, x2]. key_independent x ?S" using indep indep2 by simp
  have A2: "discrete_A_next x2 key ?S = discrete_A_next x1 key ?S"
    using same_s by (simp add: discrete_A_next_def)
  have Q2: "Q_sa x2 key' ?S A = Q_sa x1 key' ?S A" for A
    using same_sa by simp
  have Q1: "Q_sa x1 key ?S A = Q_sa x1 key' ?S A" for A
    using indep by (rule key_independent_Q_sa)
  have S2: "Q_s x2 key ?S = Q_s x1 key ?S" using same_s by simp
  let ?v = "Q_sa x1 key' ?S (discrete_A_next x1 key ?S)"
  have loop: "discrete_loop split [x1, x2] [x1, x2] ?S rng [] =
      (if [] \<notin> set (Q_s x1 key ?S)
       then Inr (nth_rngs split (length [x1, x2] * (length [x1, x2] + 1)) rng, [?v, ?v, ?v, ?v])
       else Inl ArrayError)"
    unfolding discrete_loop_key_independent [OF all, of split rng key]
    using same_sa by (simp add: A2 S2 Q1)
  have "set [?v, ?v, ?v, ?v] = set [?v]" by simp
  then have b: "bootstrap vt Rn In [?v, ?v, ?v, ?v] = bootstrap vt Rn In [?v]" for vt Rn In
    by (rule bootstrap_set_cong)
  show ?thesis
    unfolding target_func_def collect_Q_sa_next_list_def Let_def two [unfolded evaluators_def]
      single_network_target_eq
    using disc by (simp add: loop b)
qed


lemma table_q_key_independent: "key_independent (table_q d t, p, st) S"
  by (simp add: key_independent_def Q_sa_def Q_s_def table_q_def)

text \<open>
  C4 as stated fails for a Q-function whose state-action values depend on the key: the
  two copies are evaluated with the keys number 1, 2, 4 and 5 of the sequence, and the
  minimum of the four values is not the value of the one network, which the same method
  computes for the one-element list with the keys number 0 and 1.
\<close>

theorem identical_pair_counterexample:
  "target_func ex_split keyed_self ex_bundle ex_bundle 0 ex_batch \<noteq>
     single_network_target (self_value_transform keyed_self) (batch_Rn ex_batch)
       (batch_In ex_batch) (keyed_q [1, 2], (), ()) (nth_key ex_split 0 0) (nth_key ex_split 0 1)
       (batch_S_next ex_batch) \<and>
   target_func ex_split keyed_self ex_bundle ex_bundle 0 ex_batch = Inr [- 31, 3] \<and>
   single_network_target (self_value_transform keyed_self) (batch_Rn ex_batch)
     (batch_In ex_batch) (keyed_q [1, 2], (), ()) (nth_key ex_split 0 0) (nth_key ex_split 0 1)
     (batch_S_next ex_batch) = Inr [- 1, 3] \<and>
   target_func ex_split (keyed_self\<lparr>self_q_targ_list := [keyed_q [1, 2]]\<rparr>)
     ex_bundle ex_bundle 0 ex_batch = Inr [- 1, 3] \<and>
   self_q_targ_list keyed_self = [keyed_q [1, 2], keyed_q [1, 2]] \<and>
   bundle_q_targ ex_bundle = [(), ()] \<and>
   action_space_Discrete (self_q keyed_self)"
proof -
  have "target_func ex_split keyed_self ex_bundle ex_bundle 0 ex_batch = Inr [- 31, 3]"
    by code_simp
  moreover have "single_network_target (self_value_transform keyed_self) (batch_Rn ex_batch)
     (batch_In ex_batch) (keyed_q [1, 2], (), ()) (nth_key ex_split 0 0) (nth_key ex_split 0 1)
     (batch_S_next ex_batch) = Inr [- 1, 3]"
    by code_simp
  moreover have "target_func ex_split (keyed_self\<lparr>self_q_targ_list := [keyed_q [1, 2]]\<rparr>)
     ex_bundle ex_bundle 0 ex_batch = Inr [- 1, 3]"
    by code_simp
  moreover have "self_q_targ_list keyed_self = [keyed_q [1, 2], keyed_q [1, 2]]"
    and "bundle_q_targ ex_bundle = [(), ()]" and "action_space_Discrete (self_q keyed_self)"
    by (simp_all add: keyed_self_def ex_bundle_def keyed_q_def)
  ultimately show ?thesis by simp
qed

theorem identical_pair_is_single_network_witness:
  "action_space_Discrete (self_q scenario_self) \<and>
   evaluators scenario_self ex_bundle ex_bundle
     = [(table_q True [1, 2], (), ()), (table_q True [1, 2], (), ())] \<and>
   key_independent (table_q True [1, 2], (), ()) (batch_S_next scenario_batch) \<and>
   target_func ex_split scenario_self ex_bundle ex_bundle 0 scenario_batch =
     single_network_target (self_value_transform scenario_self) (batch_Rn scenario_batch)
       (batch_In scenario_batch) (table_q True [1, 2], (), ()) 7 9 (batch_S_next scenario_batch) \<and>
   single_network_target (self_value_transform scenario_self) (batch_Rn scenario_batch)
       (batch_In scenario_batch) (table_q True [1, 2], (), ()) 7 9 (batch_S_next scenario_batch)
     = Inr [1.98, 1.98, 1.98, 1.98]"
proof -
  let ?x = "(table_q True [1, 2], (), ()) :: ex_Q \<times> unit \<times> unit"
  have d: "action_space_Discrete (self_q scenario_self)"
    by (simp add: scenario_self_def table_q_def)
  have e: "evaluators scenario_self ex_bundle ex_bundle = [?x, ?x]"
    by (simp add: evaluators_def scenario_self_def ex_bundle_def)
  have k: "key_independent ?x (batch_S_next scenario_batch)"
    by (rule table_q_key_independent)
  have v: "single_network_target (self_value_transform scenario_self) (batch_Rn scenario_batch)
       (batch_In scenario_batch) ?x 7 9 (batch_S_next scenario_batch)
     = Inr [1.98, 1.98, 1.98, 1.98]"
    by code_simp
  have "target_func ex_split scenario_self ex_bundle ex_bundle 0 scenario_batch =
     single_network_target (self_value_transform scenario_self) (batch_Rn scenario_batch)
       (batch_In scenario_batch) ?x 7 9 (batch_S_next scenario_batch)"
    by (rule identical_pair_is_single_network [OF d e _ _ k]) simp_all
  with d e k v show ?thesis by blast
qed

theorem target_func_permutation_invariant_witness:
  "mset (zip [table_q True [3, 1], table_q True [1, 2]] (zip [(), ()] [(), ()]))
     = mset (evaluators ex_discrete ex_bundle ex_bundle) \<and>
   evaluators ex_discrete ex_bundle ex_bundle
     = [(table_q True [1, 2], (), ()), (table_q True [3, 1], (), ())] \<and>
   key_independent (table_q True [1, 2], (), ()) (batch_S_next ex_batch) \<and>
   key_independent (table_q True [3, 1], (), ()) (batch_S_next ex_batch) \<and>
   target_func ex_split (ex_discrete\<lparr>self_q_targ_list := [table_q True [3, 1], table_q True [1, 2]]\<rparr>)
     (ex_bundle\<lparr>bundle_q_targ := [(), ()]\<rparr>) (ex_bundle\<lparr>bundle_q_targ := [(), ()]\<rparr>) 0 ex_batch
   = target_func ex_split ex_discrete ex_bundle ex_bundle 0 ex_batch \<and>
   target_func ex_split ex_discrete ex_bundle ex_bundle 0 ex_batch = Inr [3 / 2, 3]"
proof -
  have e: "evaluators ex_discrete ex_bundle ex_bundle
         = [(table_q True [1, 2], (), ()), (table_q True [3, 1], (), ())]"
    by (simp add: evaluators_def ex_discrete_def ex_bundle_def)
  have m: "mset (zip [table_q True [3, 1], table_q True [1, 2]] (zip [(), ()] [(), ()]))
     = mset (evaluators ex_discrete ex_bundle ex_bundle)"
    unfolding e by (simp add: add_mset_commute)
  have k: "\<forall>x \<in> set (evaluators ex_discrete ex_bundle ex_bundle).
      key_independent x (batch_S_next ex_batch)"
    unfolding e by (simp add: table_q_key_independent)
  have t: "target_func ex_split ex_discrete ex_bundle ex_bundle 0 ex_batch = Inr [3 / 2, 3]"
    by code_simp
  from target_func_permutation_invariant [OF m k, of ex_split 0] m e t
  show ?thesis by (simp add: table_q_key_independent)
qed


subsection \<open>The TD-error\<close>

lemma td_error_func_eq:
  assumes "target_func split self tp ts (nth_key split rng 0) batch = Inr G"
  shows "td_error_func split grad_argnums1 self params tp state ts rng batch =
     Inr (map uminus (grad_argnums1 (self_loss_function self) G
       (fst (function_type1 (self_q self) params state (nth_key split rng 1) (batch_S batch)
          (action_preprocessor (self_q self) (batch_A batch)) False))))"
  using assms
  by (simp add: td_error_func_def nth_key_def Let_def case_prod_beta)

lemma map_uminus_eq_diff:
  assumes "length G = length Q" and "length D = length Q"
  shows "map uminus D = map2 (-) G Q \<longleftrightarrow> D = map2 (-) Q (G :: real list)"
proof -
  have "map uminus D = map2 (-) G Q \<longleftrightarrow> (\<forall>i < length Q. - (D ! i) = G ! i - Q ! i)"
    using assms by (auto simp: list_eq_iff_nth_eq)
  also have "\<dots> \<longleftrightarrow> (\<forall>i < length Q. D ! i = Q ! i - G ! i)"
    by (auto simp: algebra_simps)
  also have "\<dots> \<longleftrightarrow> D = map2 (-) Q G"
    using assms by (auto simp: list_eq_iff_nth_eq)
  finally show ?thesis .
qed

text \<open>
  C5. When \<^verbatim>\<open>target_func\<close> returns the target \<open>G\<close> (for the first key of the sequence),
  \<open>Q\<close> is the online Q-function at the states and the preprocessed actions of the batch
  (for the second key), and the differentiation operator returns the partial
  derivatives of the loss in its second argument at \<open>(G, Q)\<close>, the TD-error has one entry
  per entry of \<open>Q\<close> and each entry is the negative of that partial derivative. It is
  \<open>G - Q\<close> exactly when the derivative is \<open>Q - G\<close>.
\<close>

theorem td_error_func_negative_gradient:
  assumes G: "target_func split self target_params target_state (nth_key split rng 0)
                transition_batch = Inr G"
    and Q: "Q = fst (function_type1 (self_q self) params state (nth_key split rng 1)
                (batch_S transition_batch)
                (action_preprocessor (self_q self) (batch_A transition_batch)) False)"
    and grad: "is_dL_dQ (self_loss_function self) G Q (jax_grad (self_loss_function self) G Q)"
  shows "\<exists>E. td_error_func split jax_grad self params target_params state target_state rng
               transition_batch = Inr E \<and>
             length E = length Q \<and>
             (\<forall>i < length Q.
                ((\<lambda>x. self_loss_function self G (Q[i := x])) has_real_derivative - (E ! i))
                  (at (Q ! i))) \<and>
             (length G = length Q \<longrightarrow>
                (E = map2 (-) G Q \<longleftrightarrow>
                 jax_grad (self_loss_function self) G Q = map2 (-) Q G))"
proof -
  let ?D = "jax_grad (self_loss_function self) G Q"
  have e: "td_error_func split jax_grad self params target_params state target_state rng
             transition_batch = Inr (map uminus ?D)"
    unfolding Q by (rule td_error_func_eq [OF G])
  have l: "length ?D = length Q" using grad by (simp add: is_dL_dQ_def)
  have d: "\<forall>i < length Q.
      ((\<lambda>x. self_loss_function self G (Q[i := x])) has_real_derivative - (map uminus ?D ! i))
        (at (Q ! i))"
    using grad l by (simp add: is_dL_dQ_def)
  have i: "length G = length Q \<longrightarrow> (map uminus ?D = map2 (-) G Q \<longleftrightarrow> ?D = map2 (-) Q G)"
    using map_uminus_eq_diff [OF _ l] by blast
  from e l d i show ?thesis by simp
qed


lemma ex_td_G: "target_func ex_split ex_discrete ex_bundle ex_bundle (nth_key ex_split 0 0) ex_batch
    = Inr [3 / 2, 3]"
  by code_simp

lemma ex_td_Q: "fst (function_type1 (self_q ex_discrete) () () (nth_key ex_split 0 1)
                (batch_S ex_batch)
                (action_preprocessor (self_q ex_discrete) (batch_A ex_batch)) False) = [1, 2]"
  by code_simp

lemma ex_is_dL_dQ:
  "is_dL_dQ half_squares [3 / 2, 3] [1, 2] (ex_grad half_squares [3 / 2, 3] [1, 2])"
  unfolding is_dL_dQ_def ex_grad_def half_squares_def
  by (auto simp: less_Suc_eq numeral_2_eq_2 intro!: derivative_eq_intros)

theorem td_error_func_negative_gradient_witness:
  "target_func ex_split ex_discrete ex_bundle ex_bundle (nth_key ex_split 0 0) ex_batch
     = Inr [3 / 2, 3] \<and>
   is_dL_dQ (self_loss_function ex_discrete) [3 / 2, 3] [1, 2]
     (ex_grad (self_loss_function ex_discrete) [3 / 2, 3] [1, 2]) \<and>
   td_error_func ex_split ex_grad ex_discrete () ex_bundle () ex_bundle 0 ex_batch
     = Inr [1 / 2, 1] \<and>
   (\<exists>E. td_error_func ex_split ex_grad ex_discrete () ex_bundle () ex_bundle 0 ex_batch = Inr E \<and>
        ((\<lambda>x. half_squares [3 / 2, 3] ([1, 2][0 := x])) has_real_derivative - (E ! 0)) (at 1))"
proof -
  have l: "self_loss_function ex_discrete = half_squares" by (simp add: ex_discrete_def)
  have g: "is_dL_dQ (self_loss_function ex_discrete) [3 / 2, 3] [1, 2]
     (ex_grad (self_loss_function ex_discrete) [3 / 2, 3] [1, 2])"
    unfolding l by (rule ex_is_dL_dQ)
  have t: "td_error_func ex_split ex_grad ex_discrete () ex_bundle () ex_bundle 0 ex_batch
     = Inr [1 / 2, 1]"
    by code_simp
  from td_error_func_negative_gradient [where jax_grad = ex_grad and target_state = ex_bundle,
      OF ex_td_G ex_td_Q [symmetric] g]
  have "\<exists>E. td_error_func ex_split ex_grad ex_discrete () ex_bundle () ex_bundle 0 ex_batch = Inr E \<and>
        ((\<lambda>x. half_squares [3 / 2, 3] ([1, 2][0 := x])) has_real_derivative - (E ! 0)) (at 1)"
    unfolding l by fastforce
  with ex_td_G g t show ?thesis by blast
qed


subsection \<open>Terminal transitions\<close>

lemma fadd_zero: "fadd x (Fin 0) = x"
  by (cases x) simp_all

lemma fmul_zero_finite: "is_finite y \<Longrightarrow> fmul (Fin 0) y = Fin 0"
  by (cases y) simp_all

text \<open>
  C2, amended. With a value transform applied entry by entry, and arrays of one length,
  lines 262 to 269 return one target per transition, and the target of a transition
  whose discount \<open>In\<close> is 0 is \<open>f\<close> of its reward \<open>Rn\<close> whenever \<open>f_inv\<close> of the minimum
  estimate of that transition is finite, whatever the other values are.
\<close>

theorem bootstrap_ieee_terminal:
  assumes ne: "Q_sa_next_list \<noteq> []"
    and len: "\<forall>c \<in> set Q_sa_next_list. length c = length Rn"
    and In: "length In = length Rn"
  shows "\<exists>G. bootstrap_ieee (map f, map f_inv) Rn In Q_sa_next_list = Inr G \<and>
           length G = length Rn \<and>
           (\<forall>r < length Rn.
              In ! r = Fin 0 \<longrightarrow>
              is_finite (f_inv (row_min_ieee (map (\<lambda>c. c ! r) Q_sa_next_list))) \<longrightarrow>
              G ! r = f (Rn ! r))"
proof -
  let ?G = "map (\<lambda>r. f (fadd (Rn ! r)
              (fmul (In ! r) (f_inv (row_min_ieee (map (\<lambda>c. c ! r) Q_sa_next_list))))))
            [0..<length Rn]"
  have b: "bootstrap_ieee (map f, map f_inv) Rn In Q_sa_next_list = Inr ?G"
    using In
    by (simp add: bootstrap_ieee_def stack_last_Inr [OF ne len] broadcast2_def
          map2_nth [of _ "length Rn"] comp_def)
  have "?G ! r = f (Rn ! r)"
    if "r < length Rn" "In ! r = Fin 0"
       "is_finite (f_inv (row_min_ieee (map (\<lambda>c. c ! r) Q_sa_next_list)))" for r
    using that by (simp add: fmul_zero_finite fadd_zero)
  with b show ?thesis by simp
qed


theorem bootstrap_ieee_terminal_witness:
  "[[NaN, Fin 5], [Fin 1, Fin 7]] \<noteq> [] \<and>
   length [NaN, Fin 5] = length [Fin 1, Fin 3] \<and>
   length [Fin 1, Fin 7] = length [Fin 1, Fin 3] \<and>
   length [Fin (1 / 2), Fin 0] = length [Fin 1, Fin 3] \<and>
   [Fin (1 / 2), Fin 0] ! 1 = Fin 0 \<and>
   is_finite (double32 (row_min_ieee (map (\<lambda>c. c ! 1) [[NaN, Fin 5], [Fin 1, Fin 7]]))) \<and>
   bootstrap_ieee (map halve, map double32) [Fin 1, Fin 3] [Fin (1 / 2), Fin 0]
     [[NaN, Fin 5], [Fin 1, Fin 7]] = Inr [NaN, Fin (3 / 2)] \<and>
   (\<exists>G. bootstrap_ieee (map halve, map double32) [Fin 1, Fin 3] [Fin (1 / 2), Fin 0]
          [[NaN, Fin 5], [Fin 1, Fin 7]] = Inr G \<and>
        G ! 1 = halve ([Fin 1, Fin 3] ! 1))"
proof -
  let ?cols = "[[NaN, Fin 5], [Fin 1, Fin 7]]"
  have ne: "?cols \<noteq> []" by simp
  have len: "\<forall>c \<in> set ?cols. length c = length [Fin 1, Fin 3]" by simp
  have In: "length [Fin (1 / 2), Fin 0] = length [Fin 1, Fin 3]" by simp
  have z: "[Fin (1 / 2), Fin 0] ! 1 = Fin 0" by simp
  have fin: "is_finite (double32 (row_min_ieee (map (\<lambda>c. c ! 1) ?cols)))"
    by code_simp
  have v: "bootstrap_ieee (map halve, map double32) [Fin 1, Fin 3] [Fin (1 / 2), Fin 0] ?cols
      = Inr [NaN, Fin (3 / 2)]"
    by code_simp
  from bootstrap_ieee_terminal [OF ne len In, of halve double32] z fin
  have "\<exists>G. bootstrap_ieee (map halve, map double32) [Fin 1, Fin 3] [Fin (1 / 2), Fin 0]
          ?cols = Inr G \<and> G ! 1 = halve ([Fin 1, Fin 3] ! 1)"
    by fastforce
  with z fin v show ?thesis by simp
qed

text \<open>
  C2 as stated fails when \<open>f_inv\<close> of the minimum estimate is not finite: the product
  of line 269 is \<open>0 * inf\<close>, which is NaN. Two target Q-functions with the value
  \<open>2 ^ 127\<close> in both rows give four such arrays; \<open>f_inv\<close> doubles the minimum and
  overflows, and the terminal second row is NaN instead of \<open>f 3 = 3 / 2\<close>. The same
  happens with the identity transform when the Q-functions return an infinity.
\<close>

theorem terminal_target_counterexample:
  "bootstrap_ieee (map halve, map double32) [Fin 1, Fin 3] [Fin (1 / 2), Fin 0]
     [[Fin (2 ^ 127), Fin (2 ^ 127)], [Fin (2 ^ 127), Fin (2 ^ 127)],
      [Fin (2 ^ 127), Fin (2 ^ 127)], [Fin (2 ^ 127), Fin (2 ^ 127)]] = Inr [PInf, NaN] \<and>
   [Fin (1 / 2), Fin 0] ! 1 = Fin 0 \<and>
   halve ([Fin 1, Fin 3] ! 1) = Fin (3 / 2) \<and>
   [PInf, NaN] ! 1 \<noteq> halve ([Fin 1, Fin 3] ! 1) \<and>
   bootstrap_ieee (\<lambda>x. x, \<lambda>x. x) [Fin 3] [Fin 0] [[PInf], [PInf], [PInf], [PInf]]
     = Inr [NaN]"
  by code_simp

text \<open>
  On finite values the two models of lines 262 to 269 agree, for every pair of
  transforms that agree there: \<^verbatim>\<open>target_func\<close> on real numbers is the finite part of
  the model on values with infinities and NaN.
\<close>

lemma fold_fmin_Fin: "fold fmin (map Fin xs) (Fin x) = Fin (fold min xs x)"
  by (induction xs arbitrary: x) simp_all

lemma row_min_ieee_Fin: "row \<noteq> [] \<Longrightarrow> row_min_ieee (map Fin row) = Fin (row_min row)"
  by (cases row) (simp_all add: fold_fmin_Fin)

lemma broadcast2_Fin:
  assumes "\<And>a b. g (Fin a) (Fin b) = Fin (h a b)"
  shows "broadcast2 g (map Fin xs) (map Fin ys) =
           (case broadcast2 h xs ys of Inl e \<Rightarrow> Inl e | Inr zs \<Rightarrow> Inr (map Fin zs))"
proof -
  have hd1: "hd (map Fin zs) = Fin (hd zs)" if "length zs = 1" for zs :: "real list"
    using that by (cases zs) simp_all
  have m: "map2 g (map Fin xs) (map Fin ys) = map Fin (map2 h xs ys)"
  proof (induction xs arbitrary: ys)
    case Nil
    show ?case by simp
  next
    case (Cons x xs)
    then show ?case by (cases ys) (simp_all add: assms)
  qed
  show ?thesis
    by (simp add: broadcast2_def m hd1 assms comp_def)
qed

lemma stack_last_Fin:
  "stack_last (map (map Fin) cols) =
     (case stack_last cols of Inl e \<Rightarrow> Inl e | Inr M \<Rightarrow> Inr (map (map Fin) M))"
proof (cases "cols \<noteq> [] \<and> (\<forall>c \<in> set cols. length c = length (hd cols))")
  case True
  then have ne: "cols \<noteq> []" and len: "\<forall>c \<in> set cols. length c = length (hd cols)"
    by blast+
  have ne': "map (map Fin) cols \<noteq> []" using ne by simp
  have len': "\<forall>c \<in> set (map (map Fin) cols). length c = length (hd cols)"
    using len by simp
  have "map (\<lambda>r. map (\<lambda>v. v ! r) (map (map Fin) cols)) [0..<length (hd cols)]
      = map (map Fin) (map (\<lambda>r. map (\<lambda>v. v ! r) cols) [0..<length (hd cols)])"
    using len by (simp add: comp_def)
  then show ?thesis
    unfolding stack_last_Inr [OF ne len] stack_last_Inr [OF ne' len'] by simp
next
  case False
  then have "\<not> (map (map Fin) cols \<noteq> [] \<and>
      (\<forall>c \<in> set (map (map Fin) cols). length c = length (hd (map (map Fin) cols))))"
    by (cases cols) auto
  with False show ?thesis
    unfolding stack_last_eq by (simp only: if_False sum.case)
qed

lemma stack_last_rows_nonempty:
  assumes "stack_last cols = Inr M" and "row \<in> set M"
  shows "row \<noteq> []"
proof (cases "cols \<noteq> [] \<and> (\<forall>c \<in> set cols. length c = length (hd cols))")
  case True
  then have "stack_last cols = Inr (map (\<lambda>r. map (\<lambda>v. v ! r) cols) [0..<length (hd cols)])"
    by (intro stack_last_Inr) blast+
  with assms(1) have "M = map (\<lambda>r. map (\<lambda>v. v ! r) cols) [0..<length (hd cols)]"
    by simp
  with assms(2) obtain r where "row = map (\<lambda>v. v ! r) cols" by auto
  with True show ?thesis by simp
next
  case False
  then have "stack_last cols = Inl ArrayError" unfolding stack_last_eq by (simp only: if_False)
  with assms(1) show ?thesis by simp
qed

lemma bootstrap_ieee_finite:
  assumes f: "\<And>xs. f' (map Fin xs) = map Fin (f xs)"
    and g: "\<And>xs. f_inv' (map Fin xs) = map Fin (f_inv xs)"
  shows "bootstrap_ieee (f', f_inv') (map Fin Rn) (map Fin In) (map (map Fin) cols) =
           (case bootstrap (f, f_inv) Rn In cols of
              Inl e \<Rightarrow> Inl e
            | Inr G \<Rightarrow> Inr (map Fin G))"
proof (cases "stack_last cols")
  case (Inl e)
  then show ?thesis by (simp add: bootstrap_ieee_def bootstrap_def stack_last_Fin)
next
  case (Inr M)
  let ?Q = "map row_min M"
  have q: "map row_min_ieee (map (map Fin) M) = map Fin ?Q"
    using stack_last_rows_nonempty [OF Inr] by (simp add: row_min_ieee_Fin)
  have mul: "broadcast2 fmul (map Fin In) (map Fin (f_inv ?Q)) =
      (case broadcast2 (*) In (f_inv ?Q) of Inl e \<Rightarrow> Inl e | Inr zs \<Rightarrow> Inr (map Fin zs))"
    by (rule broadcast2_Fin) simp
  have add: "broadcast2 fadd (map Fin Rn) (map Fin d) =
      (case broadcast2 (+) Rn d of Inl e \<Rightarrow> Inl e | Inr zs \<Rightarrow> Inr (map Fin zs))" for d
    by (rule broadcast2_Fin) simp
  have l: "bootstrap_ieee (f', f_inv') (map Fin Rn) (map Fin In) (map (map Fin) cols) =
      (case broadcast2 fmul (map Fin In) (map Fin (f_inv ?Q)) of
         Inl e \<Rightarrow> Inl e
       | Inr discounted \<Rightarrow>
           (case broadcast2 fadd (map Fin Rn) discounted of
              Inl e \<Rightarrow> Inl e
            | Inr G \<Rightarrow> Inr (f' G)))"
    unfolding bootstrap_ieee_def stack_last_Fin Inr sum.case Let_def q prod.case g ..
  have r: "bootstrap (f, f_inv) Rn In cols =
      (case broadcast2 (*) In (f_inv ?Q) of
         Inl e \<Rightarrow> Inl e
       | Inr discounted \<Rightarrow>
           (case broadcast2 (+) Rn discounted of
              Inl e \<Rightarrow> Inl e
            | Inr G \<Rightarrow> Inr (f G)))"
    unfolding bootstrap_def Inr sum.case Let_def min_last_def prod.case ..
  show ?thesis
  proof (cases "broadcast2 (*) In (f_inv ?Q)")
    case (Inl e)
    then show ?thesis unfolding l r mul by simp
  next
    case d: (Inr d)
    show ?thesis
    proof (cases "broadcast2 (+) Rn d")
      case (Inl e)
      then show ?thesis unfolding l r mul d by (simp add: add)
    next
      case (Inr G)
      then show ?thesis unfolding l r mul d by (simp add: add f)
    qed
  qed
qed


lemma target_func_finite_values:
  assumes "\<And>xs. f' (map Fin xs) = map Fin (fst (self_value_transform self) xs)"
    and "\<And>xs. f_inv' (map Fin xs) = map Fin (snd (self_value_transform self) xs)"
  shows "(case target_func split self target_params target_state rng transition_batch of
            Inl e \<Rightarrow> Inl e
          | Inr G \<Rightarrow> Inr (map Fin G)) =
         (case collect_Q_sa_next_list split self target_params target_state rng
                 (batch_S_next transition_batch) of
            Inl e \<Rightarrow> Inl e
          | Inr Q_sa_next_list \<Rightarrow>
              bootstrap_ieee (f', f_inv') (map Fin (batch_Rn transition_batch))
                (map Fin (batch_In transition_batch)) (map (map Fin) Q_sa_next_list))"
proof -
  obtain f f_inv where vt: "self_value_transform self = (f, f_inv)"
    by (cases "self_value_transform self") auto
  show ?thesis
    using bootstrap_ieee_finite [of f' f f_inv' f_inv] assms
    by (simp add: target_func_def Let_def vt split: sum.splits)
qed

end
